theory Spec2Isabelle
  imports Main "HOL-Library.AList"
begin

section \<open>Data model (models/entities.ts)\<close>

text \<open>
  Dates are the millisecond time stamps that \<^verbatim>\<open>Date.getTime()\<close> returns (valid dates
  only). An optional field is an \<open>option\<close>. The two enums carry the string values the API
  documents (\<^verbatim>\<open>pending\<close>, \<^verbatim>\<open>completed\<close>; \<^verbatim>\<open>low\<close>, \<^verbatim>\<open>medium\<close>, \<^verbatim>\<open>high\<close>).
  Record fields carry a prefix because \<^verbatim>\<open>List\<close> and \<^verbatim>\<open>Task\<close> share field names.
\<close>

datatype TaskStatus = PENDING | COMPLETED

datatype TaskPriority = LOW | MEDIUM | HIGH

record ListEntity =
  l_id :: string
  l_name :: string
  l_description :: "string option"
  l_color :: "string option"
  l_tasks_count :: int
  l_created_at :: int
  l_updated_at :: int

record Task =
  t_id :: string
  t_list_id :: string
  t_title :: string
  t_description :: "string option"
  t_deadline :: "int option"
  t_priority :: TaskPriority
  t_status :: TaskStatus
  t_completed_at :: "int option"
  t_created_at :: int
  t_updated_at :: int

text \<open>\<^verbatim>\<open>Partial<List>\<close> and \<^verbatim>\<open>Partial<Task>\<close>: \<open>None\<close> is an absent key.\<close>

record ListPatch =
  pl_id :: "string option"
  pl_name :: "string option"
  pl_description :: "string option"
  pl_color :: "string option"
  pl_tasks_count :: "int option"
  pl_created_at :: "int option"
  pl_updated_at :: "int option"

record TaskPatch =
  pt_id :: "string option"
  pt_list_id :: "string option"
  pt_title :: "string option"
  pt_description :: "string option"
  pt_deadline :: "int option"
  pt_priority :: "TaskPriority option"
  pt_status :: "TaskStatus option"
  pt_completed_at :: "int option"
  pt_created_at :: "int option"
  pt_updated_at :: "int option"

record CreateTaskInput =
  cti_list_id :: string
  cti_title :: string
  cti_description :: "string option"
  cti_deadline :: "int option"
  cti_priority :: "TaskPriority option"

record UpdateTaskInput =
  uti_title :: "string option"
  uti_description :: "string option"
  uti_deadline :: "int option"
  uti_priority :: "TaskPriority option"
  uti_status :: "TaskStatus option"
  uti_list_id :: "string option"

record CreateListInput =
  cli_name :: string
  cli_description :: "string option"
  cli_color :: "string option"

record UpdateListInput =
  uli_name :: "string option"
  uli_description :: "string option"
  uli_color :: "string option"

datatype SortOrder = Asc | Desc

record SortParams =
  sp_field :: string
  sp_order :: SortOrder

record TaskFilterParams =
  f_list_id :: "string option"
  f_status :: "TaskStatus option"
  f_priority :: "TaskPriority option"
  f_deadline_from :: "int option"
  f_deadline_to :: "int option"
  f_search :: "string option"

record ListFilterParams =
  lf_search :: "string option"

text \<open>
  The failures the code raises with \<^verbatim>\<open>throw new Error(...)\<close>, named after the taxonomy
  of the specification. \<open>CapacityExceeded\<close> carries the two numbers of its message:
  the configured maximum and the current count.
\<close>

datatype error =
    CapacityExceeded nat nat
  | NotFound string
  | Conflict string

section \<open>The in-memory store (storage/memoryStore.ts)\<close>

text \<open>
  A JavaScript \<^verbatim>\<open>Map\<close> is an association list in insertion order: \<^verbatim>\<open>Map.set\<close> is
  \<^const>\<open>AList.update\<close> (an existing key keeps its place, a new key goes to the end),
  \<^verbatim>\<open>Map.get\<close> is \<^const>\<open>map_of\<close>, \<^verbatim>\<open>Map.delete\<close> is \<^const>\<open>AList.delete\<close> and
  \<^verbatim>\<open>Map.size\<close> is \<^const>\<open>length\<close>. A \<^verbatim>\<open>Set<string>\<close> is a list in insertion order.
  The day key \<^verbatim>\<open>YYYY-MM-DD\<close> of the deadline index is kept as the number of the UTC day
  since the epoch, of which the text is an injective rendering.
\<close>

record StorageIndexes =
  tasksByListId :: "(string \<times> string list) list"
  tasksByStatus :: "(TaskStatus \<times> string list) list"
  tasksByPriority :: "(TaskPriority \<times> string list) list"
  tasksByDeadlineDate :: "(int \<times> string list) list"

text \<open>
  Of the statistics, the three counters are modelled; \<^verbatim>\<open>lastAccessed\<close> and the
  \<^verbatim>\<open>memoryUsage\<close> estimate are monitoring values that no operation reads.
\<close>

record MemoryStoreStats =
  listsCount :: int
  tasksCount :: int
  operationsCount :: nat

record MemoryStore =
  lists_m :: "(string \<times> ListEntity) list"
  tasks :: "(string \<times> Task) list"
  indexes :: StorageIndexes
  maxSize :: nat
  stats :: MemoryStoreStats

definition new_MemoryStore :: "nat \<Rightarrow> MemoryStore" where
  "new_MemoryStore n =
     \<lparr> lists_m = [], tasks = [],
       indexes = \<lparr> tasksByListId = [], tasksByStatus = [], tasksByPriority = [],
                   tasksByDeadlineDate = [] \<rparr>,
       maxSize = n,
       stats = \<lparr> listsCount = 0, tasksCount = 0, operationsCount = 0 \<rparr> \<rparr>"

subsection \<open>Sets of ids and index buckets\<close>

definition set_add :: "'a \<Rightarrow> 'a list \<Rightarrow> 'a list" where
  "set_add x xs = (if x \<in> set xs then xs else xs @ [x])"

definition set_delete :: "'a \<Rightarrow> 'a list \<Rightarrow> 'a list" where
  "set_delete x xs = removeAll x xs"

text \<open>
  \<^verbatim>\<open>if (!m.has(k)) m.set(k, new Set()); m.get(k)!.add(x)\<close>
\<close>

definition index_add :: "'k \<Rightarrow> string \<Rightarrow> ('k \<times> string list) list \<Rightarrow> ('k \<times> string list) list" where
  "index_add k x m =
     (case map_of m k of
        None \<Rightarrow> AList.update k (set_add x []) m
      | Some ids \<Rightarrow> AList.update k (set_add x ids) m)"

text \<open>
  \<^verbatim>\<open>const b = m.get(k); if (b) { b.delete(x); if (b.size === 0) m.delete(k) }\<close>
\<close>

definition index_remove :: "'k \<Rightarrow> string \<Rightarrow> ('k \<times> string list) list \<Rightarrow> ('k \<times> string list) list" where
  "index_remove k x m =
     (case map_of m k of
        None \<Rightarrow> m
      | Some ids \<Rightarrow>
          (let ids' = set_delete x ids
           in if length ids' = 0 then AList.delete k m else AList.update k ids' m))"

text \<open>
  \<^verbatim>\<open>date.toISOString().split('T')[0]\<close>: the UTC day of the time stamp.
\<close>

definition day_ms :: int where
  "day_ms = 86400000"

definition formatDateKey :: "int \<Rightarrow> int" where
  "formatDateKey date = date div day_ms"

definition updateTaskIndexes :: "Task \<Rightarrow> MemoryStore \<Rightarrow> MemoryStore" where
  "updateTaskIndexes task s =
     (let ix = indexes s;
          ix1 = ix\<lparr> tasksByListId := index_add (t_list_id task) (t_id task) (tasksByListId ix) \<rparr>;
          ix2 = ix1\<lparr> tasksByStatus := index_add (t_status task) (t_id task) (tasksByStatus ix1) \<rparr>;
          ix3 = ix2\<lparr> tasksByPriority := index_add (t_priority task) (t_id task) (tasksByPriority ix2) \<rparr>;
          ix4 = (case t_deadline task of
                   None \<Rightarrow> ix3
                 | Some d \<Rightarrow> ix3\<lparr> tasksByDeadlineDate :=
                               index_add (formatDateKey d) (t_id task) (tasksByDeadlineDate ix3) \<rparr>)
      in s\<lparr> indexes := ix4 \<rparr>)"

definition removeTaskFromIndexes :: "Task \<Rightarrow> MemoryStore \<Rightarrow> MemoryStore" where
  "removeTaskFromIndexes task s =
     (let ix = indexes s;
          ix1 = ix\<lparr> tasksByListId := index_remove (t_list_id task) (t_id task) (tasksByListId ix) \<rparr>;
          ix2 = ix1\<lparr> tasksByStatus := index_remove (t_status task) (t_id task) (tasksByStatus ix1) \<rparr>;
          ix3 = ix2\<lparr> tasksByPriority := index_remove (t_priority task) (t_id task) (tasksByPriority ix2) \<rparr>;
          ix4 = (case t_deadline task of
                   None \<Rightarrow> ix3
                 | Some d \<Rightarrow> ix3\<lparr> tasksByDeadlineDate :=
                               index_remove (formatDateKey d) (t_id task) (tasksByDeadlineDate ix3) \<rparr>)
      in s\<lparr> indexes := ix4 \<rparr>)"

text \<open>
  \<open>now\<close> is what \<^verbatim>\<open>new Date()\<close> returns during the call. The list object is changed
  in place, so it keeps its place in the map.
\<close>

definition updateListTaskCount :: "string \<Rightarrow> int \<Rightarrow> MemoryStore \<Rightarrow> MemoryStore" where
  "updateListTaskCount listId now s =
     (case map_of (lists_m s) listId of
        None \<Rightarrow> s
      | Some l \<Rightarrow>
          s\<lparr> lists_m := AList.update listId
                (l\<lparr> l_tasks_count :=
                       (case map_of (tasksByListId (indexes s)) listId of
                          None \<Rightarrow> 0
                        | Some taskIds \<Rightarrow> int (length taskIds)),
                     l_updated_at := now \<rparr>)
                (lists_m s) \<rparr>)"

definition checkCapacity :: "MemoryStore \<Rightarrow> error option" where
  "checkCapacity s =
     (let totalEntities = length (lists_m s) + length (tasks s)
      in if totalEntities \<ge> maxSize s then Some (CapacityExceeded (maxSize s) totalEntities)
         else None)"

definition updateStats :: "MemoryStore \<Rightarrow> MemoryStore" where
  "updateStats s = s\<lparr> stats := (stats s)\<lparr> operationsCount := operationsCount (stats s) + 1 \<rparr> \<rparr>"

subsection \<open>List operations\<close>

text \<open>
  Every operation returns its result and the store after the call; a thrown error is
  \<open>Inl\<close>, paired with the store as the throw left it.
\<close>

definition getAllLists :: "MemoryStore \<Rightarrow> ListEntity list \<times> MemoryStore" where
  "getAllLists s = (map snd (lists_m s), updateStats s)"

definition getListById :: "string \<Rightarrow> MemoryStore \<Rightarrow> ListEntity option \<times> MemoryStore" where
  "getListById i s = (map_of (lists_m s) i, updateStats s)"

definition createList :: "ListEntity \<Rightarrow> MemoryStore \<Rightarrow> (error + unit) \<times> MemoryStore" where
  "createList l s =
     (case checkCapacity s of
        Some e \<Rightarrow> (Inl e, s)
      | None \<Rightarrow>
          (let s1 = updateStats s;
               s2 = s1\<lparr> lists_m := AList.update (l_id l) l (lists_m s1) \<rparr>;
               s3 = s2\<lparr> stats := (stats s2)\<lparr> listsCount := listsCount (stats s2) + 1 \<rparr> \<rparr>
           in (Inr (), s3)))"

definition merge_list :: "ListEntity \<Rightarrow> ListPatch \<Rightarrow> string \<Rightarrow> int \<Rightarrow> ListEntity" where
  "merge_list existingList updates i now =
     \<lparr> l_id = i,
       l_name = (case pl_name updates of None \<Rightarrow> l_name existingList | Some v \<Rightarrow> v),
       l_description = (case pl_description updates of None \<Rightarrow> l_description existingList | Some v \<Rightarrow> Some v),
       l_color = (case pl_color updates of None \<Rightarrow> l_color existingList | Some v \<Rightarrow> Some v),
       l_tasks_count = (case pl_tasks_count updates of None \<Rightarrow> l_tasks_count existingList | Some v \<Rightarrow> v),
       l_created_at = (case pl_created_at updates of None \<Rightarrow> l_created_at existingList | Some v \<Rightarrow> v),
       l_updated_at = now \<rparr>"

definition updateList :: "string \<Rightarrow> ListPatch \<Rightarrow> int \<Rightarrow> MemoryStore \<Rightarrow> bool \<times> MemoryStore" where
  "updateList i updates now s =
     (let s1 = updateStats s
      in case map_of (lists_m s1) i of
           None \<Rightarrow> (False, s1)
         | Some existingList \<Rightarrow>
             (True, s1\<lparr> lists_m := AList.update i (merge_list existingList updates i now) (lists_m s1) \<rparr>))"

subsection \<open>Task operations\<close>

definition getAllTasks :: "MemoryStore \<Rightarrow> Task list \<times> MemoryStore" where
  "getAllTasks s = (map snd (tasks s), updateStats s)"

definition getTaskById :: "string \<Rightarrow> MemoryStore \<Rightarrow> Task option \<times> MemoryStore" where
  "getTaskById i s = (map_of (tasks s) i, updateStats s)"

text \<open>
  \<^verbatim>\<open>Array.from(taskIds).map(id => this.tasks.get(id)).filter(task => task !== undefined)\<close>
\<close>

definition tasks_of_ids :: "MemoryStore \<Rightarrow> string list \<Rightarrow> Task list" where
  "tasks_of_ids s taskIds = List.map_filter (map_of (tasks s)) taskIds"

definition getTasksByListId :: "string \<Rightarrow> MemoryStore \<Rightarrow> Task list \<times> MemoryStore" where
  "getTasksByListId listId s =
     (let s1 = updateStats s
      in case map_of (tasksByListId (indexes s1)) listId of
           None \<Rightarrow> ([], s1)
         | Some taskIds \<Rightarrow> (tasks_of_ids s1 taskIds, s1))"

definition getTasksByStatus :: "TaskStatus \<Rightarrow> MemoryStore \<Rightarrow> Task list \<times> MemoryStore" where
  "getTasksByStatus st s =
     (let s1 = updateStats s
      in case map_of (tasksByStatus (indexes s1)) st of
           None \<Rightarrow> ([], s1)
         | Some taskIds \<Rightarrow> (tasks_of_ids s1 taskIds, s1))"

definition getTasksByPriority :: "TaskPriority \<Rightarrow> MemoryStore \<Rightarrow> Task list \<times> MemoryStore" where
  "getTasksByPriority p s =
     (let s1 = updateStats s
      in case map_of (tasksByPriority (indexes s1)) p of
           None \<Rightarrow> ([], s1)
         | Some taskIds \<Rightarrow> (tasks_of_ids s1 taskIds, s1))"

text \<open>
  The loop of \<^verbatim>\<open>getTasksByDeadlineRange\<close>: \<^verbatim>\<open>currentDate\<close> starts at \<^verbatim>\<open>fromDate\<close>, the
  bucket of its UTC day is read, and \<^verbatim>\<open>setDate(getDate() + 1)\<close> moves it one calendar
  day on in the time zone of the process. That step is the parameter \<open>addDay\<close>: the rules
  of the time zone belong to the runtime (24 hours in a zone of fixed offset, 23 or 25
  hours across a daylight-saving change). The loop returns when the date has passed
  \<^verbatim>\<open>toDate\<close>; a loop that does not return is \<open>None\<close>.
\<close>

partial_function (option) range_loop ::
  "(int \<Rightarrow> int) \<Rightarrow> int \<Rightarrow> int \<Rightarrow> MemoryStore \<Rightarrow> Task list \<Rightarrow> Task list option" where
  "range_loop addDay currentDate toDate s acc =
     (if currentDate \<le> toDate
      then range_loop addDay (addDay currentDate) toDate s
             (acc @ (case map_of (tasksByDeadlineDate (indexes s)) (formatDateKey currentDate) of
                       None \<Rightarrow> []
                     | Some taskIds \<Rightarrow> tasks_of_ids s taskIds))
      else Some acc)"

declare range_loop.simps [code]

definition getTasksByDeadlineRange ::
  "(int \<Rightarrow> int) \<Rightarrow> int \<Rightarrow> int \<Rightarrow> MemoryStore \<Rightarrow> Task list option \<times> MemoryStore" where
  "getTasksByDeadlineRange addDay fromDate toDate s =
     (let s1 = updateStats s in (range_loop addDay fromDate toDate s1 [], s1))"

text \<open>
  The step of a process whose time zone is UTC, or any zone of fixed offset: a calendar
  day is 24 hours. With this step the loop is the total function \<open>range_loop_24h\<close>.
\<close>

definition utc_addDay :: "int \<Rightarrow> int" where
  "utc_addDay t = t + day_ms"



definition createTask :: "Task \<Rightarrow> int \<Rightarrow> MemoryStore \<Rightarrow> (error + unit) \<times> MemoryStore" where
  "createTask task now s =
     (case checkCapacity s of
        Some e \<Rightarrow> (Inl e, s)
      | None \<Rightarrow>
          (let s1 = updateStats s;
               s2 = s1\<lparr> tasks := AList.update (t_id task) task (tasks s1) \<rparr>;
               s3 = updateTaskIndexes task s2;
               s4 = s3\<lparr> stats := (stats s3)\<lparr> tasksCount := tasksCount (stats s3) + 1 \<rparr> \<rparr>;
               s5 = updateListTaskCount (t_list_id task) now s4
           in (Inr (), s5)))"

text \<open>
  \<^verbatim>\<open>{ ...existingTask, ...updates, id, updated_at: new Date() }\<close>, followed by the two
  adjustments of \<^verbatim>\<open>completed_at\<close>.
\<close>

definition merge_task :: "Task \<Rightarrow> TaskPatch \<Rightarrow> string \<Rightarrow> int \<Rightarrow> Task" where
  "merge_task existingTask updates i now =
     (let updatedTask =
            \<lparr> t_id = i,
              t_list_id = (case pt_list_id updates of None \<Rightarrow> t_list_id existingTask | Some v \<Rightarrow> v),
              t_title = (case pt_title updates of None \<Rightarrow> t_title existingTask | Some v \<Rightarrow> v),
              t_description = (case pt_description updates of None \<Rightarrow> t_description existingTask | Some v \<Rightarrow> Some v),
              t_deadline = (case pt_deadline updates of None \<Rightarrow> t_deadline existingTask | Some v \<Rightarrow> Some v),
              t_priority = (case pt_priority updates of None \<Rightarrow> t_priority existingTask | Some v \<Rightarrow> v),
              t_status = (case pt_status updates of None \<Rightarrow> t_status existingTask | Some v \<Rightarrow> v),
              t_completed_at = (case pt_completed_at updates of None \<Rightarrow> t_completed_at existingTask | Some v \<Rightarrow> Some v),
              t_created_at = (case pt_created_at updates of None \<Rightarrow> t_created_at existingTask | Some v \<Rightarrow> v),
              t_updated_at = now \<rparr>;
          updatedTask1 =
            (if pt_status updates = Some COMPLETED \<and> t_status existingTask \<noteq> COMPLETED
             then updatedTask\<lparr> t_completed_at := Some now \<rparr> else updatedTask);
          updatedTask2 =
            (if pt_status updates = Some PENDING
             then updatedTask1\<lparr> t_completed_at := None \<rparr> else updatedTask1)
      in updatedTask2)"

text \<open>
  \<^verbatim>\<open>updates.list_id && ...\<close>: a string is truthy unless it is empty.
\<close>

definition truthy :: "string option \<Rightarrow> bool" where
  "truthy v = (case v of None \<Rightarrow> False | Some x \<Rightarrow> x \<noteq> [])"

definition updateTask :: "string \<Rightarrow> TaskPatch \<Rightarrow> int \<Rightarrow> MemoryStore \<Rightarrow> bool \<times> MemoryStore" where
  "updateTask i updates now s =
     (let s1 = updateStats s
      in case map_of (tasks s1) i of
           None \<Rightarrow> (False, s1)
         | Some existingTask \<Rightarrow>
             (let s2 = removeTaskFromIndexes existingTask s1;
                  updatedTask = merge_task existingTask updates i now;
                  s3 = s2\<lparr> tasks := AList.update i updatedTask (tasks s2) \<rparr>;
                  s4 = updateTaskIndexes updatedTask s3;
                  s5 = (if truthy (pt_list_id updates) \<and> pt_list_id updates \<noteq> Some (t_list_id existingTask)
                        then updateListTaskCount (the (pt_list_id updates)) now
                               (updateListTaskCount (t_list_id existingTask) now s4)
                        else s4)
              in (True, s5)))"

definition deleteTask :: "string \<Rightarrow> int \<Rightarrow> MemoryStore \<Rightarrow> bool \<times> MemoryStore" where
  "deleteTask i now s =
     (let s1 = updateStats s
      in case map_of (tasks s1) i of
           None \<Rightarrow> (False, s1)
         | Some task \<Rightarrow>
             (let s2 = removeTaskFromIndexes task s1;
                  s3 = s2\<lparr> tasks := AList.delete i (tasks s2) \<rparr>;
                  s4 = s3\<lparr> stats := (stats s3)\<lparr> tasksCount := tasksCount (stats s3) - 1 \<rparr> \<rparr>;
                  s5 = updateListTaskCount (t_list_id task) now s4
              in (True, s5)))"

text \<open>
  The cascade visits the ids of the bucket of the list. The loop of the source iterates
  the live \<^verbatim>\<open>Set\<close> while \<^verbatim>\<open>deleteTask\<close> removes from it; a call removes no other id
  than the one being visited, so every id that was in the bucket is visited once, as
  in the fold over the ids read at the start.
\<close>

definition deleteList :: "string \<Rightarrow> bool \<Rightarrow> int \<Rightarrow> MemoryStore \<Rightarrow> bool \<times> MemoryStore" where
  "deleteList i deleteAssociatedTasks now s =
     (let s1 = updateStats s
      in case map_of (lists_m s1) i of
           None \<Rightarrow> (False, s1)
         | Some l \<Rightarrow>
             (let s2 = (if deleteAssociatedTasks
                        then (case map_of (tasksByListId (indexes s1)) i of
                                None \<Rightarrow> s1
                              | Some taskIds \<Rightarrow> fold (\<lambda>taskId st. snd (deleteTask taskId now st)) taskIds s1)
                        else s1);
                  s3 = s2\<lparr> lists_m := AList.delete i (lists_m s2) \<rparr>;
                  s4 = s3\<lparr> stats := (stats s3)\<lparr> listsCount := listsCount (stats s3) - 1 \<rparr> \<rparr>
              in (True, s4)))"

section \<open>The repositories (repositories/listRepository.ts, repositories/taskRepository.ts)\<close>

subsection \<open>Strings\<close>

text \<open>
  The string methods of the runtime, on the ASCII range: \<^verbatim>\<open>trim\<close> strips white space
  at both ends, \<^verbatim>\<open>toLowerCase\<close> maps \<^verbatim>\<open>A-Z\<close> to \<^verbatim>\<open>a-z\<close>, \<^verbatim>\<open>includes\<close> looks for
  a contiguous occurrence, and \<^verbatim>\<open>localeCompare\<close> (whose collation belongs to the
  runtime) is taken as the order of the character codes.
\<close>

definition is_space :: "char \<Rightarrow> bool" where
  "is_space c = (c \<in> set [CHR 0x09, CHR 0x0A, CHR 0x0B, CHR 0x0C, CHR 0x0D, CHR 0x20])"

definition trim :: "string \<Rightarrow> string" where
  "trim s = rev (dropWhile is_space (rev (dropWhile is_space s)))"

definition lower_char :: "char \<Rightarrow> char" where
  "lower_char c =
     (case map_of (zip ''ABCDEFGHIJKLMNOPQRSTUVWXYZ'' ''abcdefghijklmnopqrstuvwxyz'') c of
        None \<Rightarrow> c
      | Some d \<Rightarrow> d)"

definition toLowerCase :: "string \<Rightarrow> string" where
  "toLowerCase s = map lower_char s"

fun str_includes :: "string \<Rightarrow> string \<Rightarrow> bool" where
  "str_includes [] sub = (sub = [])"
| "str_includes (c # cs) sub = (take (length sub) (c # cs) = sub \<or> str_includes cs sub)"

fun localeCompare :: "string \<Rightarrow> string \<Rightarrow> int" where
  "localeCompare [] [] = 0"
| "localeCompare [] (y # ys) = - 1"
| "localeCompare (x # xs) [] = 1"
| "localeCompare (x # xs) (y # ys) =
     (if (of_char x :: nat) < of_char y then - 1
      else if (of_char y :: nat) < of_char x then 1
      else localeCompare xs ys)"

fun status_string :: "TaskStatus \<Rightarrow> string" where
  "status_string PENDING = ''pending''"
| "status_string COMPLETED = ''completed''"

subsection \<open>Sorting and paging\<close>

text \<open>
  \<^verbatim>\<open>Array.prototype.sort\<close> with a comparator is a stable sort: an element goes before
  the first element it does not compare greater than, equal elements keep their order.
\<close>

fun insort_cmp :: "('a \<Rightarrow> 'a \<Rightarrow> int) \<Rightarrow> 'a \<Rightarrow> 'a list \<Rightarrow> 'a list" where
  "insort_cmp cmp x [] = [x]"
| "insort_cmp cmp x (y # ys) = (if cmp x y \<le> 0 then x # y # ys else y # insort_cmp cmp x ys)"

definition array_sort :: "('a \<Rightarrow> 'a \<Rightarrow> int) \<Rightarrow> 'a list \<Rightarrow> 'a list" where
  "array_sort cmp xs = foldr (insort_cmp cmp) xs []"

text \<open>
  \<^verbatim>\<open>if (limit !== undefined && offset !== undefined) xs = xs.slice(offset, offset + limit)\<close>,
  for the offsets and limits the callers compute (natural numbers).
\<close>

definition paginate :: "nat option \<Rightarrow> nat option \<Rightarrow> 'a list \<Rightarrow> 'a list" where
  "paginate limit offset xs =
     (case (limit, offset) of
        (Some l, Some off) \<Rightarrow> take l (drop off xs)
      | _ \<Rightarrow> xs)"

subsection \<open>ListRepository\<close>

definition list_comparison :: "string \<Rightarrow> ListEntity \<Rightarrow> ListEntity \<Rightarrow> int" where
  "list_comparison field a b =
     (if field = ''name'' then localeCompare (l_name a) (l_name b)
      else if field = ''created_at'' then l_created_at a - l_created_at b
      else if field = ''updated_at'' then l_updated_at a - l_updated_at b
      else if field = ''tasks_count'' then l_tasks_count a - l_tasks_count b
      else l_created_at a - l_created_at b)"

definition sortLists :: "ListEntity list \<Rightarrow> SortParams \<Rightarrow> ListEntity list" where
  "sortLists ls srt =
     array_sort (\<lambda>a b. let comparison = list_comparison (sp_field srt) a b
                        in if sp_order srt = Desc then - comparison else comparison) ls"

definition list_search_match :: "string \<Rightarrow> ListEntity \<Rightarrow> bool" where
  "list_search_match searchTerm l =
     (str_includes (toLowerCase (l_name l)) searchTerm \<or>
      (case l_description l of
         None \<Rightarrow> False
       | Some d \<Rightarrow> d \<noteq> [] \<and> str_includes (toLowerCase d) searchTerm))"

definition ListRepository_getAllLists ::
  "ListFilterParams option \<Rightarrow> SortParams option \<Rightarrow> nat option \<Rightarrow> nat option \<Rightarrow> MemoryStore
     \<Rightarrow> (ListEntity list \<times> nat) \<times> MemoryStore" where
  "ListRepository_getAllLists filters srt limit offset s =
     (let (ls, s1) = getAllLists s;
          total = length ls;
          ls1 = (case filters of
                   None \<Rightarrow> ls
                 | Some f \<Rightarrow>
                     (if truthy (lf_search f)
                      then filter (list_search_match (toLowerCase (the (lf_search f)))) ls
                      else ls));
          ls2 = (case srt of
                   Some sp \<Rightarrow> sortLists ls1 sp
                 | None \<Rightarrow> sortLists ls1 \<lparr> sp_field = ''created_at'', sp_order = Desc \<rparr>);
          ls3 = paginate limit offset ls2
      in ((ls3, total), s1))"

definition ListRepository_getListById :: "string \<Rightarrow> MemoryStore \<Rightarrow> ListEntity option \<times> MemoryStore" where
  "ListRepository_getListById i s = getListById i s"

text \<open>
  \<open>new_id\<close> is the identifier \<^verbatim>\<open>generateId()\<close> (a version 4 UUID) returns in the call.
  The object literals that the repository methods build are definitions of their own.
\<close>

definition createList_record :: "string \<Rightarrow> int \<Rightarrow> CreateListInput \<Rightarrow> ListEntity" where
  "createList_record new_id now input =
     \<lparr> l_id = new_id,
       l_name = trim (cli_name input),
       l_description = (if truthy (cli_description input)
                        then Some (trim (the (cli_description input))) else None),
       l_color = (if truthy (cli_color input) then cli_color input else None),
       l_tasks_count = 0,
       l_created_at = now,
       l_updated_at = now \<rparr>"

definition ListRepository_createList ::
  "string \<Rightarrow> int \<Rightarrow> CreateListInput \<Rightarrow> MemoryStore \<Rightarrow> (error + ListEntity) \<times> MemoryStore" where
  "ListRepository_createList new_id now input s =
     (let l = createList_record new_id now input;
          (existingLists, s1) = getAllLists s;
          isDuplicate = list_ex (\<lambda>existingList.
                          toLowerCase (l_name existingList) = toLowerCase (l_name l)) existingLists
      in if isDuplicate then (Inl (Conflict (l_name l)), s1)
         else (case createList l s1 of
                 (Inl e, s2) \<Rightarrow> (Inl e, s2)
               | (Inr u, s2) \<Rightarrow> (Inr l, s2)))"

definition updateList_data :: "UpdateListInput \<Rightarrow> int \<Rightarrow> ListPatch" where
  "updateList_data input now =
     \<lparr> pl_id = None,
       pl_name = (if truthy (uli_name input)
                  then Some (trim (the (uli_name input))) else uli_name input),
       pl_description = (if truthy (uli_description input)
                         then Some (trim (the (uli_description input)))
                         else uli_description input),
       pl_color = uli_color input,
       pl_tasks_count = None,
       pl_created_at = None,
       pl_updated_at = Some now \<rparr>"

definition ListRepository_updateList ::
  "string \<Rightarrow> int \<Rightarrow> UpdateListInput \<Rightarrow> MemoryStore \<Rightarrow> (error + ListEntity option) \<times> MemoryStore" where
  "ListRepository_updateList i now input s =
     (let (existingList, s1) = getListById i s
      in case existingList of
           None \<Rightarrow> (Inr None, s1)
         | Some el \<Rightarrow>
             (let (isDuplicate, s2) =
                    (if truthy (uli_name input)
                     then (let trimmedName = trim (the (uli_name input));
                               (allLists, s2) = getAllLists s1
                           in (list_ex (\<lambda>l. l_id l \<noteq> i \<and>
                                    toLowerCase (l_name l) = toLowerCase trimmedName) allLists, s2))
                     else (False, s1))
              in if isDuplicate then (Inl (Conflict (trim (the (uli_name input)))), s2)
                 else
                   (let updateData = updateList_data input now;
                        (success, s3) = updateList i updateData now s2
                    in if \<not> success then (Inr None, s3)
                       else (let (updatedList, s4) = getListById i s3
                             in (Inr updatedList, s4)))))"

definition ListRepository_deleteList ::
  "string \<Rightarrow> bool \<Rightarrow> int \<Rightarrow> MemoryStore \<Rightarrow> bool \<times> MemoryStore" where
  "ListRepository_deleteList i deleteAssociatedTasks now s =
     (let (existingList, s1) = getListById i s
      in case existingList of
           None \<Rightarrow> (False, s1)
         | Some el \<Rightarrow>
             (let (ts, s2) = getTasksByListId i s1
              in deleteList i deleteAssociatedTasks now s2))"

subsection \<open>TaskRepository\<close>

text \<open>
  The predicate of \<^verbatim>\<open>applyFilters\<close>, check by check. A filter value that is a date or an
  enum value is truthy when present; a string is truthy when it is not empty.
\<close>

definition filter_match :: "TaskFilterParams \<Rightarrow> Task \<Rightarrow> bool" where
  "filter_match filters task =
     (if truthy (f_list_id filters) \<and> Some (t_list_id task) \<noteq> f_list_id filters then False
      else if f_status filters \<noteq> None \<and> Some (t_status task) \<noteq> f_status filters then False
      else if f_priority filters \<noteq> None \<and> Some (t_priority task) \<noteq> f_priority filters then False
      else if (case (f_deadline_from filters, t_deadline task) of
                 (Some fromDate, Some d) \<Rightarrow> d < fromDate
               | _ \<Rightarrow> False) then False
      else if (case (f_deadline_to filters, t_deadline task) of
                 (Some toDate, Some d) \<Rightarrow> d > toDate
               | _ \<Rightarrow> False) then False
      else if truthy (f_search filters) \<and>
              (let searchTerm = toLowerCase (the (f_search filters));
                   titleMatch = str_includes (toLowerCase (t_title task)) searchTerm;
                   descriptionMatch = (case t_description task of
                                         None \<Rightarrow> False
                                       | Some d \<Rightarrow> str_includes (toLowerCase d) searchTerm)
               in \<not> titleMatch \<and> \<not> descriptionMatch) then False
      else True)"

definition applyFilters :: "Task list \<Rightarrow> TaskFilterParams \<Rightarrow> Task list" where
  "applyFilters ts filters = filter (filter_match filters) ts"

fun priorityOrder :: "TaskPriority \<Rightarrow> int" where
  "priorityOrder HIGH = 3"
| "priorityOrder MEDIUM = 2"
| "priorityOrder LOW = 1"

definition task_comparison :: "string \<Rightarrow> Task \<Rightarrow> Task \<Rightarrow> int" where
  "task_comparison field a b =
     (if field = ''title'' then localeCompare (t_title a) (t_title b)
      else if field = ''created_at'' then t_created_at a - t_created_at b
      else if field = ''updated_at'' then t_updated_at a - t_updated_at b
      else if field = ''deadline'' then
        (case (t_deadline a, t_deadline b) of
           (None, None) \<Rightarrow> 0
         | (None, Some db) \<Rightarrow> 1
         | (Some da, None) \<Rightarrow> - 1
         | (Some da, Some db) \<Rightarrow> da - db)
      else if field = ''priority'' then priorityOrder (t_priority a) - priorityOrder (t_priority b)
      else if field = ''status'' then
        localeCompare (status_string (t_status a)) (status_string (t_status b))
      else t_created_at a - t_created_at b)"

definition sortTasks :: "Task list \<Rightarrow> SortParams \<Rightarrow> Task list" where
  "sortTasks ts srt =
     array_sort (\<lambda>a b. let comparison = task_comparison (sp_field srt) a b
                        in if sp_order srt = Desc then - comparison else comparison) ts"

text \<open>
  The four query methods share their body after the candidates are read: filter, count,
  sort (with the default of the method), page.
\<close>

definition task_query ::
  "Task list \<Rightarrow> TaskFilterParams option \<Rightarrow> SortParams option \<Rightarrow> SortParams \<Rightarrow> nat option \<Rightarrow> nat option
     \<Rightarrow> Task list \<times> nat" where
  "task_query candidates filters srt default_sort limit offset =
     (let ts1 = (case filters of None \<Rightarrow> candidates | Some f \<Rightarrow> applyFilters candidates f);
          filteredTotal = length ts1;
          ts2 = (case srt of Some sp \<Rightarrow> sortTasks ts1 sp | None \<Rightarrow> sortTasks ts1 default_sort);
          ts3 = paginate limit offset ts2
      in (ts3, filteredTotal))"

definition TaskRepository_getAllTasks ::
  "TaskFilterParams option \<Rightarrow> SortParams option \<Rightarrow> nat option \<Rightarrow> nat option \<Rightarrow> MemoryStore
     \<Rightarrow> (Task list \<times> nat) \<times> MemoryStore" where
  "TaskRepository_getAllTasks filters srt limit offset s =
     (let (ts, s1) = getAllTasks s
      in (task_query ts filters srt \<lparr> sp_field = ''created_at'', sp_order = Desc \<rparr> limit offset, s1))"

definition TaskRepository_getTasksByListId ::
  "string \<Rightarrow> TaskFilterParams option \<Rightarrow> SortParams option \<Rightarrow> nat option \<Rightarrow> nat option \<Rightarrow> MemoryStore
     \<Rightarrow> (Task list \<times> nat) \<times> MemoryStore" where
  "TaskRepository_getTasksByListId listId filters srt limit offset s =
     (let (ts, s1) = getTasksByListId listId s
      in (task_query ts filters srt \<lparr> sp_field = ''created_at'', sp_order = Desc \<rparr> limit offset, s1))"

definition TaskRepository_getTasksByStatus ::
  "TaskStatus \<Rightarrow> TaskFilterParams option \<Rightarrow> SortParams option \<Rightarrow> nat option \<Rightarrow> nat option \<Rightarrow> MemoryStore
     \<Rightarrow> (Task list \<times> nat) \<times> MemoryStore" where
  "TaskRepository_getTasksByStatus st filters srt limit offset s =
     (let (ts, s1) = getTasksByStatus st s
      in (task_query ts filters srt \<lparr> sp_field = ''created_at'', sp_order = Desc \<rparr> limit offset, s1))"

definition TaskRepository_getTasksByDeadlineRange ::
  "(int \<Rightarrow> int) \<Rightarrow> int \<Rightarrow> int \<Rightarrow> TaskFilterParams option \<Rightarrow> SortParams option \<Rightarrow> nat option
     \<Rightarrow> nat option \<Rightarrow> MemoryStore \<Rightarrow> (Task list \<times> nat) option \<times> MemoryStore" where
  "TaskRepository_getTasksByDeadlineRange addDay fromDate toDate filters srt limit offset s =
     (let (r, s1) = getTasksByDeadlineRange addDay fromDate toDate s
      in (case r of
            None \<Rightarrow> None
          | Some ts \<Rightarrow>
              Some (task_query ts filters srt \<lparr> sp_field = ''deadline'', sp_order = Asc \<rparr> limit offset),
          s1))"

definition createTask_record :: "string \<Rightarrow> int \<Rightarrow> CreateTaskInput \<Rightarrow> Task" where
  "createTask_record new_id now input =
     \<lparr> t_id = new_id,
       t_list_id = cti_list_id input,
       t_title = trim (cti_title input),
       t_description = (if truthy (cti_description input)
                        then Some (trim (the (cti_description input))) else None),
       t_deadline = cti_deadline input,
       t_priority = (case cti_priority input of None \<Rightarrow> MEDIUM | Some p \<Rightarrow> p),
       t_status = PENDING,
       t_completed_at = None,
       t_created_at = now,
       t_updated_at = now \<rparr>"

definition TaskRepository_createTask ::
  "string \<Rightarrow> int \<Rightarrow> CreateTaskInput \<Rightarrow> MemoryStore \<Rightarrow> (error + Task) \<times> MemoryStore" where
  "TaskRepository_createTask new_id now input s =
     (let (listExists, s1) = getListById (cti_list_id input) s
      in case listExists of
           None \<Rightarrow> (Inl (NotFound (cti_list_id input)), s1)
         | Some l \<Rightarrow>
             (let task = createTask_record new_id now input
              in case createTask task now s1 of
                   (Inl e, s2) \<Rightarrow> (Inl e, s2)
                 | (Inr u, s2) \<Rightarrow> (Inr task, s2)))"

definition updateTask_data :: "UpdateTaskInput \<Rightarrow> int \<Rightarrow> TaskPatch" where
  "updateTask_data input now =
     \<lparr> pt_id = None,
       pt_list_id = uti_list_id input,
       pt_title = (if truthy (uti_title input)
                   then Some (trim (the (uti_title input))) else uti_title input),
       pt_description = (if truthy (uti_description input)
                         then Some (trim (the (uti_description input)))
                         else uti_description input),
       pt_deadline = uti_deadline input,
       pt_priority = uti_priority input,
       pt_status = uti_status input,
       pt_completed_at = None,
       pt_created_at = None,
       pt_updated_at = Some now \<rparr>"

definition TaskRepository_updateTask ::
  "string \<Rightarrow> int \<Rightarrow> UpdateTaskInput \<Rightarrow> MemoryStore \<Rightarrow> (error + Task option) \<times> MemoryStore" where
  "TaskRepository_updateTask i now input s =
     (let (existingTask, s1) = getTaskById i s
      in case existingTask of
           None \<Rightarrow> (Inr None, s1)
         | Some et \<Rightarrow>
             (let (missing, s2) =
                    (if truthy (uti_list_id input) \<and> uti_list_id input \<noteq> Some (t_list_id et)
                     then (let (listExists, s2) = getListById (the (uti_list_id input)) s1
                           in (listExists = None, s2))
                     else (False, s1))
              in if missing then (Inl (NotFound (the (uti_list_id input))), s2)
                 else
                   (let updateData = updateTask_data input now;
                        (success, s3) = updateTask i updateData now s2
                    in if \<not> success then (Inr None, s3)
                       else (let (updatedTask, s4) = getTaskById i s3
                             in (Inr updatedTask, s4)))))"

definition TaskRepository_deleteTask :: "string \<Rightarrow> int \<Rightarrow> MemoryStore \<Rightarrow> bool \<times> MemoryStore" where
  "TaskRepository_deleteTask i now s =
     (let (existingTask, s1) = getTaskById i s
      in case existingTask of
           None \<Rightarrow> (False, s1)
         | Some et \<Rightarrow> deleteTask i now s1)"

definition completeTask_data :: "int \<Rightarrow> TaskPatch" where
  "completeTask_data now =
     \<lparr> pt_id = None, pt_list_id = None, pt_title = None, pt_description = None,
       pt_deadline = None, pt_priority = None, pt_status = Some COMPLETED,
       pt_completed_at = Some now, pt_created_at = None, pt_updated_at = Some now \<rparr>"

definition TaskRepository_completeTask :: "string \<Rightarrow> int \<Rightarrow> MemoryStore \<Rightarrow> Task option \<times> MemoryStore" where
  "TaskRepository_completeTask i now s =
     (let (existingTask, s1) = getTaskById i s
      in case existingTask of
           None \<Rightarrow> (None, s1)
         | Some et \<Rightarrow>
             (if t_status et = COMPLETED then (Some et, s1)
              else
                (let updateData = completeTask_data now;
                     (success, s2) = updateTask i updateData now s1
                 in if \<not> success then (None, s2)
                    else getTaskById i s2)))"

text \<open>
  \<^verbatim>\<open>uncompleteTask\<close> hands the store the whole existing task with the new status and
  without \<^verbatim>\<open>completed_at\<close>.
\<close>

definition uncompleteTask_data :: "Task \<Rightarrow> int \<Rightarrow> TaskPatch" where
  "uncompleteTask_data et now =
     \<lparr> pt_id = Some (t_id et), pt_list_id = Some (t_list_id et),
       pt_title = Some (t_title et), pt_description = t_description et,
       pt_deadline = t_deadline et, pt_priority = Some (t_priority et),
       pt_status = Some PENDING, pt_completed_at = None,
       pt_created_at = Some (t_created_at et), pt_updated_at = Some now \<rparr>"

definition TaskRepository_uncompleteTask :: "string \<Rightarrow> int \<Rightarrow> MemoryStore \<Rightarrow> Task option \<times> MemoryStore" where
  "TaskRepository_uncompleteTask i now s =
     (let (existingTask, s1) = getTaskById i s
      in case existingTask of
           None \<Rightarrow> (None, s1)
         | Some et \<Rightarrow>
             (if t_status et = PENDING then (Some et, s1)
              else
                (let taskWithoutCompletedAt = uncompleteTask_data et now;
                     (success, s2) = updateTask i taskWithoutCompletedAt now s1
                 in if \<not> success then (None, s2)
                    else getTaskById i s2)))"

section \<open>Operations as data\<close>

text \<open>
  The mutating methods of the store and of the two repositories, as values, so that
  sequences of calls can be run.
\<close>

datatype store_op =
    SCreateList ListEntity
  | SUpdateList string ListPatch int
  | SDeleteList string bool int
  | SCreateTask Task int
  | SUpdateTask string TaskPatch int
  | SDeleteTask string int

fun store_step :: "store_op \<Rightarrow> MemoryStore \<Rightarrow> MemoryStore" where
  "store_step (SCreateList l) s = snd (createList l s)"
| "store_step (SUpdateList i updates now) s = snd (updateList i updates now s)"
| "store_step (SDeleteList i deleteAssociatedTasks now) s = snd (deleteList i deleteAssociatedTasks now s)"
| "store_step (SCreateTask task now) s = snd (createTask task now s)"
| "store_step (SUpdateTask i updates now) s = snd (updateTask i updates now s)"
| "store_step (SDeleteTask i now) s = snd (deleteTask i now s)"

fun store_run :: "store_op list \<Rightarrow> MemoryStore \<Rightarrow> MemoryStore" where
  "store_run [] s = s"
| "store_run (x # xs) s = store_run xs (store_step x s)"

datatype repo_op =
    CreateList string int CreateListInput
  | UpdateList string int UpdateListInput
  | DeleteList string bool int
  | CreateTask string int CreateTaskInput
  | UpdateTask string int UpdateTaskInput
  | DeleteTask string int
  | CompleteTask string int
  | UncompleteTask string int

fun repo_step :: "repo_op \<Rightarrow> MemoryStore \<Rightarrow> MemoryStore" where
  "repo_step (CreateList new_id now input) s = snd (ListRepository_createList new_id now input s)"
| "repo_step (UpdateList i now input) s = snd (ListRepository_updateList i now input s)"
| "repo_step (DeleteList i deleteAssociatedTasks now) s =
     snd (ListRepository_deleteList i deleteAssociatedTasks now s)"
| "repo_step (CreateTask new_id now input) s = snd (TaskRepository_createTask new_id now input s)"
| "repo_step (UpdateTask i now input) s = snd (TaskRepository_updateTask i now input s)"
| "repo_step (DeleteTask i now) s = snd (TaskRepository_deleteTask i now s)"
| "repo_step (CompleteTask i now) s = snd (TaskRepository_completeTask i now s)"
| "repo_step (UncompleteTask i now) s = snd (TaskRepository_uncompleteTask i now s)"

fun repo_run :: "repo_op list \<Rightarrow> MemoryStore \<Rightarrow> MemoryStore" where
  "repo_run [] s = s"
| "repo_run (x # xs) s = repo_run xs (repo_step x s)"

section \<open>Properties of store states\<close>

definition in_bucket :: "('k \<times> string list) list \<Rightarrow> 'k \<Rightarrow> string \<Rightarrow> bool" where
  "in_bucket m k x = (case map_of m k of None \<Rightarrow> False | Some taskIds \<Rightarrow> x \<in> set taskIds)"

text \<open>
  A bucket of an index holds a task id exactly when the task exists and its current field
  has the key of the bucket; the deadline index only knows tasks with a deadline.
\<close>

definition index_consistent :: "MemoryStore \<Rightarrow> bool" where
  "index_consistent s =
     ((\<forall>k x. in_bucket (tasksByListId (indexes s)) k x
              = (\<exists>t. map_of (tasks s) x = Some t \<and> t_list_id t = k)) \<and>
      (\<forall>k x. in_bucket (tasksByStatus (indexes s)) k x
              = (\<exists>t. map_of (tasks s) x = Some t \<and> t_status t = k)) \<and>
      (\<forall>k x. in_bucket (tasksByPriority (indexes s)) k x
              = (\<exists>t. map_of (tasks s) x = Some t \<and> t_priority t = k)) \<and>
      (\<forall>k x. in_bucket (tasksByDeadlineDate (indexes s)) k x
              = (\<exists>t d. map_of (tasks s) x = Some t \<and> t_deadline t = Some d \<and> formatDateKey d = k)))"

text \<open>
  What holds of a store by construction: the keys of a \<^verbatim>\<open>Map\<close> and the members of a
  \<^verbatim>\<open>Set\<close> are unique, and a record is stored under its own id.
\<close>

definition store_wf :: "MemoryStore \<Rightarrow> bool" where
  "store_wf s =
     (distinct (map fst (lists_m s)) \<and> distinct (map fst (tasks s)) \<and>
      (\<forall>(k, l) \<in> set (lists_m s). l_id l = k) \<and>
      (\<forall>(k, t) \<in> set (tasks s). t_id t = k) \<and>
      (\<forall>(k, taskIds) \<in> set (tasksByListId (indexes s)). distinct taskIds))"

definition store_inv :: "MemoryStore \<Rightarrow> bool" where
  "store_inv s = (store_wf s \<and> index_consistent s)"

text \<open>The identifier of a created record is new: \<^verbatim>\<open>uuidv4()\<close> does not repeat itself.\<close>

fun store_op_ok :: "MemoryStore \<Rightarrow> store_op \<Rightarrow> bool" where
  "store_op_ok s (SCreateTask task now) = (map_of (tasks s) (t_id task) = None)"
| "store_op_ok s x = True"

fun store_ops_ok :: "MemoryStore \<Rightarrow> store_op list \<Rightarrow> bool" where
  "store_ops_ok s [] = True"
| "store_ops_ok s (x # xs) = (store_op_ok s x \<and> store_ops_ok (store_step x s) xs)"

text \<open>
  At the repositories the new identifiers are those of \<^verbatim>\<open>generateId()\<close>: new to the
  store, also as a reference of a task. A \<^verbatim>\<open>list_id\<close> of a patch is an identifier, not
  the empty string (the callers validate it as a UUID).
\<close>

fun repo_op_ok :: "MemoryStore \<Rightarrow> repo_op \<Rightarrow> bool" where
  "repo_op_ok s (CreateList new_id now input) =
     (map_of (lists_m s) new_id = None \<and> (\<forall>(k, t) \<in> set (tasks s). t_list_id t \<noteq> new_id))"
| "repo_op_ok s (CreateTask new_id now input) = (map_of (tasks s) new_id = None)"
| "repo_op_ok s (UpdateTask i now input) = (uti_list_id input \<noteq> Some [])"
| "repo_op_ok s x = True"

fun repo_ops_ok :: "MemoryStore \<Rightarrow> repo_op list \<Rightarrow> bool" where
  "repo_ops_ok s [] = True"
| "repo_ops_ok s (x # xs) = (repo_op_ok s x \<and> repo_ops_ok (repo_step x s) xs)"

fun cascading :: "repo_op \<Rightarrow> bool" where
  "cascading (DeleteList i deleteAssociatedTasks now) = deleteAssociatedTasks"
| "cascading x = True"

text \<open>
  The size the capacity check looks at, and sequences of inserts of new records.
\<close>

definition total_size :: "MemoryStore \<Rightarrow> nat" where
  "total_size s = length (lists_m s) + length (tasks s)"

fun insert_new :: "MemoryStore \<Rightarrow> store_op \<Rightarrow> bool" where
  "insert_new s (SCreateList l) = (map_of (lists_m s) (l_id l) = None)"
| "insert_new s (SCreateTask task now) = (map_of (tasks s) (t_id task) = None)"
| "insert_new s x = False"

fun inserts_new :: "MemoryStore \<Rightarrow> store_op list \<Rightarrow> bool" where
  "inserts_new s [] = True"
| "inserts_new s (x # xs) = (insert_new s x \<and> inserts_new (store_step x s) xs)"

text \<open>The number of task records that reference a list, by a scan of all tasks.\<close>

definition tasks_referencing :: "MemoryStore \<Rightarrow> string \<Rightarrow> nat" where
  "tasks_referencing s listId = length (filter (\<lambda>t. t_list_id t = listId) (map snd (tasks s)))"

definition counts_ok :: "MemoryStore \<Rightarrow> bool" where
  "counts_ok s = (\<forall>(k, l) \<in> set (lists_m s). l_tasks_count l = int (tasks_referencing s k))"

text \<open>
  The size of a bucket as \<^verbatim>\<open>updateListTaskCount\<close> reads it, and the agreement of the
  counts with the index of lists (outside a set of lists that wait for their recount).
\<close>

definition bucket_size :: "('k \<times> string list) list \<Rightarrow> 'k \<Rightarrow> int" where
  "bucket_size m k = (case map_of m k of None \<Rightarrow> 0 | Some taskIds \<Rightarrow> int (length taskIds))"

definition counts_match_except :: "string set \<Rightarrow> MemoryStore \<Rightarrow> bool" where
  "counts_match_except A s =
     (\<forall>(k, l) \<in> set (lists_m s).
        k \<notin> A \<longrightarrow> l_tasks_count l = bucket_size (tasksByListId (indexes s)) k)"

definition counts_match_index :: "MemoryStore \<Rightarrow> bool" where
  "counts_match_index s = counts_match_except {} s"

definition repo_inv :: "MemoryStore \<Rightarrow> bool" where
  "repo_inv s = (store_inv s \<and> counts_match_index s)"

definition ref_ok :: "MemoryStore \<Rightarrow> bool" where
  "ref_ok s = (\<forall>(k, t) \<in> set (tasks s). map_of (lists_m s) (t_list_id t) \<noteq> None)"

definition completed_iff :: "MemoryStore \<Rightarrow> bool" where
  "completed_iff s = (\<forall>(k, t) \<in> set (tasks s). (t_completed_at t \<noteq> None) = (t_status t = COMPLETED))"

text \<open>The two readings of a deadline range: by time stamp, and by UTC day.\<close>

definition deadline_in_range :: "int \<Rightarrow> int \<Rightarrow> Task \<Rightarrow> bool" where
  "deadline_in_range a b t = (case t_deadline t of None \<Rightarrow> False | Some d \<Rightarrow> a \<le> d \<and> d \<le> b)"

definition deadline_day_in_range :: "int \<Rightarrow> int \<Rightarrow> Task \<Rightarrow> bool" where
  "deadline_day_in_range a b t =
     (case t_deadline t of
        None \<Rightarrow> False
      | Some d \<Rightarrow> formatDateKey a \<le> formatDateKey d \<and> formatDateKey d \<le> formatDateKey b)"

text \<open>In a list of tasks, no task without a deadline comes before a task with one.\<close>

fun undated_last :: "Task list \<Rightarrow> bool" where
  "undated_last [] = True"
| "undated_last (t # ts) =
     ((t_deadline t = None \<longrightarrow> list_all (\<lambda>u. t_deadline u = None) ts) \<and> undated_last ts)"

section \<open>Example data\<close>

definition ex_task :: "string \<Rightarrow> string \<Rightarrow> int option \<Rightarrow> TaskPriority \<Rightarrow> TaskStatus \<Rightarrow> Task" where
  "ex_task i l d p st =
     \<lparr> t_id = i, t_list_id = l, t_title = ''Report'', t_description = None, t_deadline = d,
       t_priority = p, t_status = st, t_completed_at = None, t_created_at = 1, t_updated_at = 1 \<rparr>"

definition ex_list :: "string \<Rightarrow> string \<Rightarrow> ListEntity" where
  "ex_list i n =
     \<lparr> l_id = i, l_name = n, l_description = None, l_color = None, l_tasks_count = 0,
       l_created_at = 1, l_updated_at = 1 \<rparr>"

definition ex_filter :: TaskFilterParams where
  "ex_filter = \<lparr> f_list_id = Some ''L1'', f_status = None, f_priority = None,
                 f_deadline_from = None, f_deadline_to = None, f_search = Some ''rep'' \<rparr>"

definition ex_create_list :: "string \<Rightarrow> CreateListInput" where
  "ex_create_list n = \<lparr> cli_name = n, cli_description = None, cli_color = None \<rparr>"

definition ex_create_task :: "string \<Rightarrow> int option \<Rightarrow> CreateTaskInput" where
  "ex_create_task l d =
     \<lparr> cti_list_id = l, cti_title = ''Report'', cti_description = None, cti_deadline = d,
       cti_priority = None \<rparr>"

definition ex_update_task :: "TaskStatus option \<Rightarrow> string option \<Rightarrow> UpdateTaskInput" where
  "ex_update_task st l =
     \<lparr> uti_title = None, uti_description = None, uti_deadline = None, uti_priority = None,
       uti_status = st, uti_list_id = l \<rparr>"

definition ex_inserts :: "store_op list" where
  "ex_inserts =
     [SCreateList (ex_list ''L1'' ''Work''),
      SCreateTask (ex_task ''T1'' ''L1'' None LOW PENDING) 5]"

definition ex_store_ops :: "store_op list" where
  "ex_store_ops =
     [SCreateList (ex_list ''L1'' ''Work''),
      SCreateList (ex_list ''L2'' ''Home''),
      SCreateTask (ex_task ''T1'' ''L1'' (Some 1752105600000) HIGH PENDING) 5,
      SCreateTask (ex_task ''T2'' ''L1'' None LOW PENDING) 6,
      SUpdateTask ''T1''
        \<lparr> pt_id = None, pt_list_id = Some ''L2'', pt_title = None, pt_description = None,
          pt_deadline = None, pt_priority = None, pt_status = Some COMPLETED,
          pt_completed_at = None, pt_created_at = None, pt_updated_at = None \<rparr> 7,
      SDeleteTask ''T2'' 8,
      SDeleteList ''L2'' True 9]"

definition ex_two_lists :: MemoryStore where
  "ex_two_lists =
     store_run [SCreateList (ex_list ''L1'' ''Work''), SCreateList (ex_list ''L2'' ''Home'')]
       (new_MemoryStore 10)"

definition ex_deadline_ops :: "store_op list" where
  "ex_deadline_ops =
     [SCreateList (ex_list ''L1'' ''Work''),
      SCreateTask (ex_task ''T1'' ''L1'' (Some 28800000) HIGH PENDING) 5,
      SCreateTask (ex_task ''T2'' ''L1'' (Some 97200000) LOW PENDING) 6,
      SCreateTask (ex_task ''T3'' ''L1'' None LOW PENDING) 7]"


definition ex_repo_ops :: "repo_op list" where
  "ex_repo_ops =
     [CreateList ''L1'' 1 (ex_create_list ''Work''),
      CreateList ''L2'' 2 (ex_create_list ''Home''),
      CreateTask ''T1'' 3 (ex_create_task ''L1'' (Some 1752105600000)),
      CreateTask ''T2'' 4 (ex_create_task ''L1'' None),
      CreateTask ''T3'' 5 (ex_create_task ''L2'' None),
      UpdateTask ''T1'' 6 (ex_update_task (Some COMPLETED) (Some ''L2'')),
      CompleteTask ''T2'' 7,
      UncompleteTask ''T1'' 8,
      DeleteTask ''T2'' 9,
      DeleteList ''L2'' True 10]"

definition ex_orphan_ops :: "repo_op list" where
  "ex_orphan_ops =
     [CreateList ''L1'' 1 (ex_create_list ''Work''),
      CreateTask ''T1'' 2 (ex_create_task ''L1'' None),
      DeleteList ''L1'' False 3]"

text \<open>
  The calendar-day step around the end of daylight saving time of 26 October 2025
  (01:00 UTC) in a central European zone: a step that crosses the change is 25 hours.
\<close>

definition ex_dst_addDay :: "int \<Rightarrow> int" where
  "ex_dst_addDay t =
     (if t < 1761440400000 \<and> 1761440400000 \<le> t + day_ms then t + day_ms + 3600000
      else t + day_ms)"

definition ex_dst_ops :: "store_op list" where
  "ex_dst_ops =
     [SCreateList (ex_list ''L1'' ''Work''),
      SCreateTask (ex_task ''T1'' ''L1'' (Some 1761480000000) HIGH PENDING) 5]"


section \<open>Lemmas about the store\<close>


subsection \<open>Association lists\<close>

lemma set_update_cases:
  "(a, b) \<in> set (AList.update k v al) \<Longrightarrow> (a, b) = (k, v) \<or> (a, b) \<in> set al"
  by (induction al) (auto split: if_splits)

lemma set_delete_cases:
  "(a, b) \<in> set (AList.delete k al) \<Longrightarrow> a \<noteq> k \<and> (a, b) \<in> set al"
  by (auto simp: AList.delete_eq)

lemma length_update_new:
  "map_of al k = None \<Longrightarrow> length (AList.update k v al) = Suc (length al)"
  by (induction al) (auto split: if_splits)

subsection \<open>Buckets\<close>

lemma in_bucket_index_add:
  "in_bucket (index_add k x m) k' y = (in_bucket m k' y \<or> (k' = k \<and> y = x))"
  by (auto simp: in_bucket_def index_add_def set_add_def update_conv' split: option.splits if_splits)

lemma in_bucket_index_remove:
  "in_bucket (index_remove k x m) k' y = (in_bucket m k' y \<and> \<not> (k' = k \<and> y = x))"
proof (cases "map_of m k")
  case None
  then show ?thesis by (auto simp: in_bucket_def index_remove_def)
next
  case (Some ids)
  show ?thesis
  proof (cases "removeAll x ids = []")
    case True
    then have "set ids \<subseteq> {x}"
      by (metis Diff_eq_empty_iff set_empty set_removeAll)
    with Some True show ?thesis
      by (auto simp: in_bucket_def index_remove_def set_delete_def delete_conv' split: option.splits)
  next
    case False
    with Some show ?thesis
      by (auto simp: in_bucket_def index_remove_def set_delete_def update_conv' split: option.splits)
  qed
qed

lemma updateTaskIndexes_fields [simp]:
  "tasks (updateTaskIndexes t s) = tasks s"
  "lists_m (updateTaskIndexes t s) = lists_m s"
  "maxSize (updateTaskIndexes t s) = maxSize s"
  "stats (updateTaskIndexes t s) = stats s"
  by (simp_all add: updateTaskIndexes_def Let_def)

lemma removeTaskFromIndexes_fields [simp]:
  "tasks (removeTaskFromIndexes t s) = tasks s"
  "lists_m (removeTaskFromIndexes t s) = lists_m s"
  "maxSize (removeTaskFromIndexes t s) = maxSize s"
  "stats (removeTaskFromIndexes t s) = stats s"
  by (simp_all add: removeTaskFromIndexes_def Let_def)

lemma updateTaskIndexes_buckets:
  "in_bucket (tasksByListId (indexes (updateTaskIndexes t s))) k x
     = (in_bucket (tasksByListId (indexes s)) k x \<or> (k = t_list_id t \<and> x = t_id t))"
  "in_bucket (tasksByStatus (indexes (updateTaskIndexes t s))) st x
     = (in_bucket (tasksByStatus (indexes s)) st x \<or> (st = t_status t \<and> x = t_id t))"
  "in_bucket (tasksByPriority (indexes (updateTaskIndexes t s))) p x
     = (in_bucket (tasksByPriority (indexes s)) p x \<or> (p = t_priority t \<and> x = t_id t))"
  "in_bucket (tasksByDeadlineDate (indexes (updateTaskIndexes t s))) dk x
     = (in_bucket (tasksByDeadlineDate (indexes s)) dk x
        \<or> (\<exists>d. t_deadline t = Some d \<and> dk = formatDateKey d \<and> x = t_id t))"
  by (auto simp: updateTaskIndexes_def Let_def in_bucket_index_add split: option.splits)

lemma removeTaskFromIndexes_buckets:
  "in_bucket (tasksByListId (indexes (removeTaskFromIndexes t s))) k x
     = (in_bucket (tasksByListId (indexes s)) k x \<and> \<not> (k = t_list_id t \<and> x = t_id t))"
  "in_bucket (tasksByStatus (indexes (removeTaskFromIndexes t s))) st x
     = (in_bucket (tasksByStatus (indexes s)) st x \<and> \<not> (st = t_status t \<and> x = t_id t))"
  "in_bucket (tasksByPriority (indexes (removeTaskFromIndexes t s))) p x
     = (in_bucket (tasksByPriority (indexes s)) p x \<and> \<not> (p = t_priority t \<and> x = t_id t))"
  "in_bucket (tasksByDeadlineDate (indexes (removeTaskFromIndexes t s))) dk x
     = (in_bucket (tasksByDeadlineDate (indexes s)) dk x
        \<and> \<not> (\<exists>d. t_deadline t = Some d \<and> dk = formatDateKey d \<and> x = t_id t))"
  by (auto simp: removeTaskFromIndexes_def Let_def in_bucket_index_remove split: option.splits)

lemma updateListTaskCount_fields [simp]:
  "tasks (updateListTaskCount l now s) = tasks s"
  "indexes (updateListTaskCount l now s) = indexes s"
  "maxSize (updateListTaskCount l now s) = maxSize s"
  "stats (updateListTaskCount l now s) = stats s"
  by (simp_all add: updateListTaskCount_def split: option.splits)

lemma updateStats_fields [simp]:
  "tasks (updateStats s) = tasks s"
  "lists_m (updateStats s) = lists_m s"
  "indexes (updateStats s) = indexes s"
  "maxSize (updateStats s) = maxSize s"
  by (simp_all add: updateStats_def)


subsection \<open>Well-formedness\<close>

lemma store_wf_cong:
  "lists_m s' = lists_m s \<Longrightarrow> tasks s' = tasks s \<Longrightarrow> indexes s' = indexes s \<Longrightarrow> store_wf s' = store_wf s"
  by (simp add: store_wf_def)

lemma index_consistent_cong:
  "tasks s' = tasks s \<Longrightarrow> indexes s' = indexes s \<Longrightarrow> index_consistent s' = index_consistent s"
  by (simp add: index_consistent_def)

lemma index_add_distinct:
  assumes "\<forall>(k, ids) \<in> set m. distinct ids" and "(k', ids') \<in> set (index_add k x m)"
  shows "distinct ids'"
proof -
  from assms(2) consider (new) ids where "map_of m k = Some ids" "ids' = set_add x ids"
    | (fresh) "map_of m k = None" "ids' = set_add x []" | (old) "(k', ids') \<in> set m"
    by (auto simp: index_add_def split: option.splits dest!: set_update_cases)
  then show ?thesis
  proof cases
    case new
    then have "(k, ids) \<in> set m" by (simp add: map_of_SomeD)
    with assms(1) new show ?thesis by (auto simp: set_add_def)
  next
    case fresh
    then show ?thesis by (simp add: set_add_def)
  next
    case old
    with assms(1) show ?thesis by auto
  qed
qed

lemma index_remove_distinct:
  assumes "\<forall>(k, ids) \<in> set m. distinct ids" and "(k', ids') \<in> set (index_remove k x m)"
  shows "distinct ids'"
proof -
  from assms(2) consider (new) ids where "map_of m k = Some ids" "ids' = set_delete x ids"
    | (old) "(k', ids') \<in> set m"
    by (auto simp: index_remove_def Let_def split: option.splits if_splits
             dest!: set_update_cases set_delete_cases)
  then show ?thesis
  proof cases
    case new
    then have "(k, ids) \<in> set m" by (simp add: map_of_SomeD)
    with assms(1) new show ?thesis by (auto simp: set_delete_def distinct_removeAll)
  next
    case old
    with assms(1) show ?thesis by auto
  qed
qed

lemma updateTaskIndexes_byList:
  "tasksByListId (indexes (updateTaskIndexes t s)) = index_add (t_list_id t) (t_id t) (tasksByListId (indexes s))"
  by (simp add: updateTaskIndexes_def Let_def split: option.splits)

lemma removeTaskFromIndexes_byList:
  "tasksByListId (indexes (removeTaskFromIndexes t s)) = index_remove (t_list_id t) (t_id t) (tasksByListId (indexes s))"
  by (simp add: removeTaskFromIndexes_def Let_def split: option.splits)

lemma wf_updateStats [simp]: "store_wf (updateStats s) = store_wf s"
  by (simp add: store_wf_def)

lemma wf_stats [simp]: "store_wf (s\<lparr> stats := x \<rparr>) = store_wf s"
  by (simp add: store_wf_def)

lemma wf_updateTaskIndexes: "store_wf s \<Longrightarrow> store_wf (updateTaskIndexes t s)"
  unfolding store_wf_def
  by (auto simp: updateTaskIndexes_byList dest: index_add_distinct[rotated])

lemma wf_removeTaskFromIndexes: "store_wf s \<Longrightarrow> store_wf (removeTaskFromIndexes t s)"
  unfolding store_wf_def
  by (auto simp: removeTaskFromIndexes_byList dest: index_remove_distinct[rotated])

lemma wf_tasks_update:
  "store_wf s \<Longrightarrow> t_id t = k \<Longrightarrow> tasks s = al \<Longrightarrow> store_wf (s\<lparr> tasks := AList.update k t al \<rparr>)"
  unfolding store_wf_def
  by (auto simp: distinct_update dest!: set_update_cases)

lemma wf_tasks_delete:
  "store_wf s \<Longrightarrow> tasks s = al \<Longrightarrow> store_wf (s\<lparr> tasks := AList.delete k al \<rparr>)"
  unfolding store_wf_def
  by (auto simp: distinct_delete dest!: set_delete_cases)

lemma wf_lists_update:
  "store_wf s \<Longrightarrow> l_id l = k \<Longrightarrow> lists_m s = al \<Longrightarrow> store_wf (s\<lparr> lists_m := AList.update k l al \<rparr>)"
  unfolding store_wf_def
  by (auto simp: distinct_update dest!: set_update_cases)

lemma wf_lists_delete:
  "store_wf s \<Longrightarrow> lists_m s = al \<Longrightarrow> store_wf (s\<lparr> lists_m := AList.delete k al \<rparr>)"
  unfolding store_wf_def
  by (auto simp: distinct_delete dest!: set_delete_cases)

lemma wf_list_key: "store_wf s \<Longrightarrow> map_of (lists_m s) k = Some l \<Longrightarrow> l_id l = k"
  by (auto simp: store_wf_def dest!: map_of_SomeD)

lemma wf_task_key: "store_wf s \<Longrightarrow> map_of (tasks s) k = Some t \<Longrightarrow> t_id t = k"
  by (auto simp: store_wf_def dest!: map_of_SomeD)

lemma wf_updateListTaskCount: "store_wf s \<Longrightarrow> store_wf (updateListTaskCount l now s)"
  by (auto simp: updateListTaskCount_def split: option.splits intro!: wf_lists_update dest: wf_list_key)

lemma merge_task_id [simp]: "t_id (merge_task e u i now) = i"
  by (simp add: merge_task_def Let_def)

lemma wf_createTask: "store_wf s \<Longrightarrow> store_wf (snd (createTask t now s))"
  by (auto simp: createTask_def Let_def split: option.splits
           intro!: wf_updateListTaskCount wf_updateTaskIndexes wf_tasks_update)

lemma wf_updateTask: "store_wf s \<Longrightarrow> store_wf (snd (updateTask i u now s))"
  by (auto simp: updateTask_def Let_def split: option.splits
           intro!: wf_updateListTaskCount wf_updateTaskIndexes wf_tasks_update wf_removeTaskFromIndexes)

lemma wf_deleteTask: "store_wf s \<Longrightarrow> store_wf (snd (deleteTask i now s))"
  by (auto simp: deleteTask_def Let_def split: option.splits
           intro!: wf_updateListTaskCount wf_tasks_delete wf_removeTaskFromIndexes)

lemma wf_createList: "store_wf s \<Longrightarrow> store_wf (snd (createList l s))"
  by (auto simp: createList_def Let_def split: option.splits intro!: wf_lists_update)

lemma wf_updateList: "store_wf s \<Longrightarrow> store_wf (snd (updateList i u now s))"
  by (auto simp: updateList_def Let_def merge_list_def split: option.splits intro!: wf_lists_update)

lemma fold_deleteTask_preserves:
  assumes "\<And>i s. P s \<Longrightarrow> P (snd (deleteTask i now s))" and "P s"
  shows "P (fold (\<lambda>taskId st. snd (deleteTask taskId now st)) ids s)"
  using assms(2) by (induction ids arbitrary: s) (auto intro: assms(1))

lemma wf_deleteList: "store_wf s \<Longrightarrow> store_wf (snd (deleteList i c now s))"
  by (auto simp: deleteList_def Let_def split: option.splits
           intro!: wf_lists_delete fold_deleteTask_preserves[where P = store_wf] wf_deleteTask)


subsection \<open>Index consistency\<close>

lemma ic_createTask:
  assumes "index_consistent s" and "map_of (tasks s) (t_id t) = None"
  shows "index_consistent (snd (createTask t now s))"
proof (cases "checkCapacity s")
  case (Some e)
  with assms show ?thesis by (simp add: createTask_def)
next
  case None
  from assms have fresh:
    "\<And>k. \<not> in_bucket (tasksByListId (indexes s)) k (t_id t)"
    "\<And>k. \<not> in_bucket (tasksByStatus (indexes s)) k (t_id t)"
    "\<And>k. \<not> in_bucket (tasksByPriority (indexes s)) k (t_id t)"
    "\<And>k. \<not> in_bucket (tasksByDeadlineDate (indexes s)) k (t_id t)"
    by (simp_all add: index_consistent_def)
  from assms(1) fresh show ?thesis
    unfolding index_consistent_def
    by (simp add: createTask_def None Let_def updateTaskIndexes_buckets update_conv') blast
qed



lemma deadline_case:
  fixes f :: "int \<Rightarrow> int"
  assumes own: "A = (\<exists>d. P d \<and> f d = kk)"
  shows "((A \<and> \<not> (\<exists>d. P d \<and> kk = f d \<and> i = i)) \<or> (\<exists>d. Q d \<and> kk = f d \<and> i = i)) = (\<exists>d. Q d \<and> f d = kk)"
  unfolding own by auto

lemma ic_updateTask:
  assumes "store_wf s" and "index_consistent s"
  shows "index_consistent (snd (updateTask i u now s))"
proof (cases "map_of (tasks s) i")
  case None
  with assms show ?thesis
    by (simp add: updateTask_def Let_def index_consistent_def)
next
  case (Some e)
  with assms(1) have k: "t_id e = i" by (rule wf_task_key)
  from assms(2) Some have own:
    "\<And>k. in_bucket (tasksByListId (indexes s)) k i = (t_list_id e = k)"
    "\<And>k. in_bucket (tasksByStatus (indexes s)) k i = (t_status e = k)"
    "\<And>k. in_bucket (tasksByPriority (indexes s)) k i = (t_priority e = k)"
    "\<And>k. in_bucket (tasksByDeadlineDate (indexes s)) k i = (\<exists>d. t_deadline e = Some d \<and> formatDateKey d = k)"
    by (simp_all add: index_consistent_def)
  from assms(2) have other:
    "\<And>k x. x \<noteq> i \<Longrightarrow> in_bucket (tasksByListId (indexes s)) k x
              = (\<exists>t. map_of (tasks s) x = Some t \<and> t_list_id t = k)"
    "\<And>k x. x \<noteq> i \<Longrightarrow> in_bucket (tasksByStatus (indexes s)) k x
              = (\<exists>t. map_of (tasks s) x = Some t \<and> t_status t = k)"
    "\<And>k x. x \<noteq> i \<Longrightarrow> in_bucket (tasksByPriority (indexes s)) k x
              = (\<exists>t. map_of (tasks s) x = Some t \<and> t_priority t = k)"
    "\<And>k x. x \<noteq> i \<Longrightarrow> in_bucket (tasksByDeadlineDate (indexes s)) k x
              = (\<exists>t d. map_of (tasks s) x = Some t \<and> t_deadline t = Some d \<and> formatDateKey d = k)"
    by (simp_all add: index_consistent_def)
  define s' where "s' = updateTaskIndexes (merge_task e u i now)
             ((removeTaskFromIndexes e (updateStats s))
                \<lparr> tasks := AList.update i (merge_task e u i now) (tasks s) \<rparr>)"
  have tk: "map_of (tasks s') = (map_of (tasks s))(i \<mapsto> merge_task e u i now)"
    by (simp add: s'_def update_conv')
  have b1: "in_bucket (tasksByListId (indexes s')) kk x
      = ((in_bucket (tasksByListId (indexes s)) kk x \<and> \<not> (kk = t_list_id e \<and> x = i))
         \<or> (kk = t_list_id (merge_task e u i now) \<and> x = i))" for kk x
    by (simp add: s'_def updateTaskIndexes_buckets removeTaskFromIndexes_buckets k)
  have b2: "in_bucket (tasksByStatus (indexes s')) kk x
      = ((in_bucket (tasksByStatus (indexes s)) kk x \<and> \<not> (kk = t_status e \<and> x = i))
         \<or> (kk = t_status (merge_task e u i now) \<and> x = i))" for kk x
    by (simp add: s'_def updateTaskIndexes_buckets removeTaskFromIndexes_buckets k)
  have b3: "in_bucket (tasksByPriority (indexes s')) kk x
      = ((in_bucket (tasksByPriority (indexes s)) kk x \<and> \<not> (kk = t_priority e \<and> x = i))
         \<or> (kk = t_priority (merge_task e u i now) \<and> x = i))" for kk x
    by (simp add: s'_def updateTaskIndexes_buckets removeTaskFromIndexes_buckets k)
  have b4: "in_bucket (tasksByDeadlineDate (indexes s')) kk x
      = ((in_bucket (tasksByDeadlineDate (indexes s)) kk x
            \<and> \<not> (\<exists>d. t_deadline e = Some d \<and> kk = formatDateKey d \<and> x = i))
         \<or> (\<exists>d. t_deadline (merge_task e u i now) = Some d \<and> kk = formatDateKey d \<and> x = i))" for kk x
    by (simp add: s'_def updateTaskIndexes_buckets removeTaskFromIndexes_buckets k)
  have "index_consistent s'"
    unfolding index_consistent_def
  proof (intro conjI allI)
    fix kk x
    show "in_bucket (tasksByListId (indexes s')) kk x
           = (\<exists>t. map_of (tasks s') x = Some t \<and> t_list_id t = kk)"
      using own(1)[of kk] other(1)[of x kk] by (cases "x = i") (auto simp: b1 tk)
  next
    fix kk x
    show "in_bucket (tasksByStatus (indexes s')) kk x
           = (\<exists>t. map_of (tasks s') x = Some t \<and> t_status t = kk)"
      using own(2)[of kk] other(2)[of x kk] by (cases "x = i") (auto simp: b2 tk)
  next
    fix kk x
    show "in_bucket (tasksByPriority (indexes s')) kk x
           = (\<exists>t. map_of (tasks s') x = Some t \<and> t_priority t = kk)"
      using own(3)[of kk] other(3)[of x kk] by (cases "x = i") (auto simp: b3 tk)
  next
    fix kk x
    show "in_bucket (tasksByDeadlineDate (indexes s')) kk x
           = (\<exists>t d. map_of (tasks s') x = Some t \<and> t_deadline t = Some d \<and> formatDateKey d = kk)"
    proof (cases "x = i")
      case True
      have rhs: "(\<exists>t d. map_of (tasks s') i = Some t \<and> t_deadline t = Some d \<and> formatDateKey d = kk)
            = (\<exists>d. t_deadline (merge_task e u i now) = Some d \<and> formatDateKey d = kk)"
        by (simp add: tk)
      show ?thesis unfolding True rhs b4
        by (rule deadline_case[OF own(4)])
    next
      case False
      then show ?thesis using other(4)[of x kk] by (simp add: b4 tk)
    qed
  qed
  moreover have "tasks (snd (updateTask i u now s)) = tasks s'"
    and "indexes (snd (updateTask i u now s)) = indexes s'"
    by (simp_all add: updateTask_def Let_def Some s'_def)
  ultimately show ?thesis
    using index_consistent_cong[of "snd (updateTask i u now s)" s'] by simp

qed


lemma ic_deleteTask:
  assumes "store_wf s" and "index_consistent s"
  shows "index_consistent (snd (deleteTask i now s))"
proof (cases "map_of (tasks s) i")
  case None
  with assms show ?thesis
    by (simp add: deleteTask_def Let_def index_consistent_def)
next
  case (Some e)
  with assms(1) have k: "t_id e = i" by (rule wf_task_key)
  define s' where "s' = (removeTaskFromIndexes e (updateStats s))\<lparr> tasks := AList.delete i (tasks s) \<rparr>"
  have tk: "map_of (tasks s') = (map_of (tasks s))(i := None)"
    by (simp add: s'_def delete_conv')
  from assms(2) Some have own:
    "\<And>k. in_bucket (tasksByListId (indexes s)) k i = (t_list_id e = k)"
    "\<And>k. in_bucket (tasksByStatus (indexes s)) k i = (t_status e = k)"
    "\<And>k. in_bucket (tasksByPriority (indexes s)) k i = (t_priority e = k)"
    "\<And>k. in_bucket (tasksByDeadlineDate (indexes s)) k i = (\<exists>d. t_deadline e = Some d \<and> formatDateKey d = k)"
    by (simp_all add: index_consistent_def)
  from assms(2) have other:
    "\<And>k x. x \<noteq> i \<Longrightarrow> in_bucket (tasksByListId (indexes s)) k x
              = (\<exists>t. map_of (tasks s) x = Some t \<and> t_list_id t = k)"
    "\<And>k x. x \<noteq> i \<Longrightarrow> in_bucket (tasksByStatus (indexes s)) k x
              = (\<exists>t. map_of (tasks s) x = Some t \<and> t_status t = k)"
    "\<And>k x. x \<noteq> i \<Longrightarrow> in_bucket (tasksByPriority (indexes s)) k x
              = (\<exists>t. map_of (tasks s) x = Some t \<and> t_priority t = k)"
    "\<And>k x. x \<noteq> i \<Longrightarrow> in_bucket (tasksByDeadlineDate (indexes s)) k x
              = (\<exists>t d. map_of (tasks s) x = Some t \<and> t_deadline t = Some d \<and> formatDateKey d = k)"
    by (simp_all add: index_consistent_def)
  have b1: "in_bucket (tasksByListId (indexes s')) kk x
      = (in_bucket (tasksByListId (indexes s)) kk x \<and> \<not> (kk = t_list_id e \<and> x = i))" for kk x
    by (simp add: s'_def removeTaskFromIndexes_buckets k)
  have b2: "in_bucket (tasksByStatus (indexes s')) kk x
      = (in_bucket (tasksByStatus (indexes s)) kk x \<and> \<not> (kk = t_status e \<and> x = i))" for kk x
    by (simp add: s'_def removeTaskFromIndexes_buckets k)
  have b3: "in_bucket (tasksByPriority (indexes s')) kk x
      = (in_bucket (tasksByPriority (indexes s)) kk x \<and> \<not> (kk = t_priority e \<and> x = i))" for kk x
    by (simp add: s'_def removeTaskFromIndexes_buckets k)
  have b4: "in_bucket (tasksByDeadlineDate (indexes s')) kk x
      = (in_bucket (tasksByDeadlineDate (indexes s)) kk x
            \<and> \<not> (\<exists>d. t_deadline e = Some d \<and> kk = formatDateKey d \<and> x = i))" for kk x
    by (simp add: s'_def removeTaskFromIndexes_buckets k)
  have "index_consistent s'"
    unfolding index_consistent_def
  proof (intro conjI allI)
    fix kk x
    show "in_bucket (tasksByListId (indexes s')) kk x
           = (\<exists>t. map_of (tasks s') x = Some t \<and> t_list_id t = kk)"
      using own(1)[of kk] other(1)[of x kk] by (cases "x = i") (auto simp: b1 tk)
  next
    fix kk x
    show "in_bucket (tasksByStatus (indexes s')) kk x
           = (\<exists>t. map_of (tasks s') x = Some t \<and> t_status t = kk)"
      using own(2)[of kk] other(2)[of x kk] by (cases "x = i") (auto simp: b2 tk)
  next
    fix kk x
    show "in_bucket (tasksByPriority (indexes s')) kk x
           = (\<exists>t. map_of (tasks s') x = Some t \<and> t_priority t = kk)"
      using own(3)[of kk] other(3)[of x kk] by (cases "x = i") (auto simp: b3 tk)
  next
    fix kk x
    show "in_bucket (tasksByDeadlineDate (indexes s')) kk x
           = (\<exists>t d. map_of (tasks s') x = Some t \<and> t_deadline t = Some d \<and> formatDateKey d = kk)"
    proof (cases "x = i")
      case True
      have "\<not> (in_bucket (tasksByDeadlineDate (indexes s)) kk i
               \<and> \<not> (\<exists>d. t_deadline e = Some d \<and> kk = formatDateKey d \<and> i = i))"
        unfolding own(4)[of kk] by blast
      then show ?thesis unfolding True b4 by (simp add: tk)
    next
      case False
      then show ?thesis using other(4)[of x kk] by (simp add: b4 tk)
    qed
  qed
  moreover have "tasks (snd (deleteTask i now s)) = tasks s'"
    and "indexes (snd (deleteTask i now s)) = indexes s'"
    by (simp_all add: deleteTask_def Let_def Some s'_def)
  ultimately show ?thesis
    using index_consistent_cong[of "snd (deleteTask i now s)" s'] by simp
qed

lemma ic_createList: "index_consistent s \<Longrightarrow> index_consistent (snd (createList l s))"
  by (simp add: createList_def Let_def index_consistent_def split: option.splits)

lemma ic_updateList: "index_consistent s \<Longrightarrow> index_consistent (snd (updateList i u now s))"
  by (simp add: updateList_def Let_def index_consistent_def split: option.splits)

subsection \<open>The invariant of the store\<close>

lemma inv_createTask:
  "store_inv s \<Longrightarrow> map_of (tasks s) (t_id t) = None \<Longrightarrow> store_inv (snd (createTask t now s))"
  by (simp add: store_inv_def wf_createTask ic_createTask)

lemma inv_updateTask: "store_inv s \<Longrightarrow> store_inv (snd (updateTask i u now s))"
  by (simp add: store_inv_def wf_updateTask ic_updateTask)

lemma inv_deleteTask: "store_inv s \<Longrightarrow> store_inv (snd (deleteTask i now s))"
  by (simp add: store_inv_def wf_deleteTask ic_deleteTask)

lemma inv_createList: "store_inv s \<Longrightarrow> store_inv (snd (createList l s))"
  by (simp add: store_inv_def wf_createList ic_createList)

lemma inv_updateList: "store_inv s \<Longrightarrow> store_inv (snd (updateList i u now s))"
  by (simp add: store_inv_def wf_updateList ic_updateList)

lemma inv_updateStats [simp]: "store_inv (updateStats s) = store_inv s"
  by (simp add: store_inv_def index_consistent_def)

lemma inv_lists_stats:
  "store_inv s \<Longrightarrow> lists_m s = al \<Longrightarrow> store_inv (s\<lparr> lists_m := AList.delete k al, stats := x \<rparr>)"
  by (simp add: store_inv_def index_consistent_def store_wf_def distinct_delete)
     (auto dest!: set_delete_cases)

lemma inv_deleteList: "store_inv s \<Longrightarrow> store_inv (snd (deleteList i c now s))"
proof -
  assume a: "store_inv s"
  have f: "store_inv (fold (\<lambda>taskId st. snd (deleteTask taskId now st)) ids (updateStats s))" for ids
    using a by (intro fold_deleteTask_preserves[where P = store_inv] inv_deleteTask) simp_all
  show ?thesis
    using a f by (auto simp: deleteList_def Let_def split: option.splits intro!: inv_lists_stats)
qed

lemma inv_new: "store_inv (new_MemoryStore n)"
  by (simp add: store_inv_def store_wf_def index_consistent_def new_MemoryStore_def in_bucket_def)

lemma inv_store_step: "store_inv s \<Longrightarrow> store_op_ok s x \<Longrightarrow> store_inv (store_step x s)"
  by (cases x) (simp_all add: inv_createTask inv_updateTask inv_deleteTask inv_createList inv_updateList inv_deleteList)

lemma inv_store_run: "store_inv s \<Longrightarrow> store_ops_ok s xs \<Longrightarrow> store_inv (store_run xs s)"
  by (induction xs arbitrary: s) (simp_all add: inv_store_step)


subsection \<open>Capacity\<close>

lemma length_update_old:
  "map_of al k = Some v' \<Longrightarrow> length (AList.update k v al) = length al"
  by (induction al) (auto split: if_splits)

lemma updateListTaskCount_length [simp]:
  "length (lists_m (updateListTaskCount l now s)) = length (lists_m s)"
  by (auto simp: updateListTaskCount_def length_update_old split: option.splits)

lemma createList_ok:
  "total_size s < maxSize s \<Longrightarrow> fst (createList l s) = Inr ()"
  by (simp add: createList_def checkCapacity_def total_size_def Let_def)

lemma createTask_ok:
  "total_size s < maxSize s \<Longrightarrow> fst (createTask t now s) = Inr ()"
  by (simp add: createTask_def checkCapacity_def total_size_def Let_def)

lemma createList_full:
  "maxSize s \<le> total_size s \<Longrightarrow> createList l s = (Inl (CapacityExceeded (maxSize s) (total_size s)), s)"
  by (simp add: createList_def checkCapacity_def total_size_def Let_def)

lemma createTask_full:
  "maxSize s \<le> total_size s \<Longrightarrow> createTask t now s = (Inl (CapacityExceeded (maxSize s) (total_size s)), s)"
  by (simp add: createTask_def checkCapacity_def total_size_def Let_def)

lemma insert_new_size:
  assumes "insert_new s x" and "total_size s < maxSize s"
  shows "total_size (store_step x s) = Suc (total_size s) \<and> maxSize (store_step x s) = maxSize s"
  using assms
  by (cases x)
     (simp_all add: createList_def createTask_def checkCapacity_def total_size_def Let_def
                    length_update_new)

lemma inserts_new_size:
  "inserts_new s xs \<Longrightarrow> total_size s + length xs \<le> maxSize s \<Longrightarrow>
   total_size (store_run xs s) = total_size s + length xs \<and> maxSize (store_run xs s) = maxSize s"
proof (induction xs arbitrary: s)
  case Nil
  then show ?case by simp
next
  case (Cons x xs)
  from Cons.prems have lt: "total_size s < maxSize s" by simp
  from Cons.prems have n: "insert_new s x" by simp
  note st = insert_new_size[OF n lt]
  from Cons.prems st have "total_size (store_step x s) + length xs \<le> maxSize (store_step x s)"
    by simp
  with Cons.IH[of "store_step x s"] Cons.prems st show ?case by simp
qed

text \<open>
  Claim C4. From any store state, \<^verbatim>\<open>createList\<close> and \<^verbatim>\<open>createTask\<close> succeed whenever
  \<^verbatim>\<open>lists.size + tasks.size < maxSize\<close>; at or above the maximum they fail with
  \<open>CapacityExceeded\<close>, which carries the configured maximum and the current count, and
  the store after the failed call is the store before it; and inserts of new records
  that fit under the maximum all take effect, each raising the size by one, so that
  inserting up to exactly the maximum succeeds.
\<close>

theorem capacity_guard:
  "(total_size s < maxSize s \<longrightarrow>
      fst (createList l s) = Inr () \<and> fst (createTask t now s) = Inr ()) \<and>
   (maxSize s \<le> total_size s \<longrightarrow>
      createList l s = (Inl (CapacityExceeded (maxSize s) (total_size s)), s) \<and>
      createTask t now s = (Inl (CapacityExceeded (maxSize s) (total_size s)), s)) \<and>
   (inserts_new s xs \<and> total_size s + length xs \<le> maxSize s \<longrightarrow>
      total_size (store_run xs s) = total_size s + length xs \<and>
      maxSize (store_run xs s) = maxSize s)"
  using createList_ok createTask_ok createList_full createTask_full inserts_new_size
  by blast

theorem capacity_guard_witness:
  "total_size (new_MemoryStore 2) < maxSize (new_MemoryStore 2) \<and>
   fst (createList (ex_list ''L1'' ''Work'') (new_MemoryStore 2)) = Inr () \<and>
   inserts_new (new_MemoryStore 2) ex_inserts \<and>
   total_size (new_MemoryStore 2) + length ex_inserts \<le> maxSize (new_MemoryStore 2) \<and>
   total_size (store_run ex_inserts (new_MemoryStore 2)) = 2 \<and>
   maxSize (store_run ex_inserts (new_MemoryStore 2)) \<le> total_size (store_run ex_inserts (new_MemoryStore 2)) \<and>
   createTask (ex_task ''T2'' ''L1'' None LOW PENDING) 6 (store_run ex_inserts (new_MemoryStore 2))
     = (Inl (CapacityExceeded 2 2), store_run ex_inserts (new_MemoryStore 2))"
proof -
  have a: "total_size (new_MemoryStore 2) = 0" "maxSize (new_MemoryStore 2) = 2"
    by (simp_all add: total_size_def new_MemoryStore_def)
  have b: "inserts_new (new_MemoryStore 2) ex_inserts"
    by code_simp
  have c: "length ex_inserts = 2" by (simp add: ex_inserts_def)
  from capacity_guard[of "new_MemoryStore 2" "ex_list ''L1'' ''Work''" "ex_task ''T2'' ''L1'' None LOW PENDING" 6 ex_inserts]
       capacity_guard[of "store_run ex_inserts (new_MemoryStore 2)" "ex_list ''L1'' ''Work''" "ex_task ''T2'' ''L1'' None LOW PENDING" 6 "[]"]
       a b c
  show ?thesis by simp
qed


section \<open>Queries\<close>

lemma filter_match_no_deadline:
  "t_deadline task = None \<Longrightarrow>
   filter_match (filters\<lparr> f_deadline_from := a, f_deadline_to := b \<rparr>) task
   = filter_match (filters\<lparr> f_deadline_from := None, f_deadline_to := None \<rparr>) task"
  by (simp add: filter_match_def split: option.splits)

text \<open>
  Claim C9. For a task without a deadline the bounds \<^verbatim>\<open>deadline_from\<close> and
  \<^verbatim>\<open>deadline_to\<close> of a filter have no effect: whatever the bounds are, the task is in
  the result of \<^verbatim>\<open>applyFilters\<close> exactly when it is a candidate and passes the
  filter with both bounds removed.
\<close>

theorem applyFilters_keeps_undated_task:
  assumes "t_deadline task = None"
  shows "(task \<in> set (applyFilters ts (filters\<lparr> f_deadline_from := a, f_deadline_to := b \<rparr>)))
         = (task \<in> set ts \<and> filter_match (filters\<lparr> f_deadline_from := None, f_deadline_to := None \<rparr>) task)"
  using filter_match_no_deadline[OF assms, where filters = filters and a = a and b = b]
  by (simp add: applyFilters_def)

theorem applyFilters_keeps_undated_task_witness:
  "t_deadline (ex_task ''T2'' ''L1'' None LOW PENDING) = None \<and>
   ex_task ''T2'' ''L1'' None LOW PENDING
     \<in> set (applyFilters [ex_task ''T1'' ''L1'' (Some 5) HIGH PENDING, ex_task ''T2'' ''L1'' None LOW PENDING]
              (ex_filter\<lparr> f_deadline_from := Some 100, f_deadline_to := Some 200 \<rparr>))"
  using applyFilters_keeps_undated_task[where task = "ex_task ''T2'' ''L1'' None LOW PENDING"
      and ts = "[ex_task ''T1'' ''L1'' (Some 5) HIGH PENDING, ex_task ''T2'' ''L1'' None LOW PENDING]"
      and filters = ex_filter and a = "Some 100" and b = "Some 200"]
  by (simp add: ex_task_def ex_filter_def filter_match_def truthy_def toLowerCase_def lower_char_def)

text \<open>
  The task queries count after the filter: the total is the length of the filtered
  candidates, whatever the sort and the page.
\<close>

lemma task_query_total:
  "snd (task_query candidates filters srt default_sort limit offset)
   = length (case filters of None \<Rightarrow> candidates | Some f \<Rightarrow> applyFilters candidates f)"
  by (simp add: task_query_def Let_def)

lemma getAllTasks_total:
  "snd (fst (TaskRepository_getAllTasks (Some f) srt limit offset s))
   = length (applyFilters (map snd (tasks s)) f)"
  by (simp add: TaskRepository_getAllTasks_def getAllTasks_def task_query_total
           split: prod.splits)

text \<open>
  Claim C6. \<^verbatim>\<open>ListRepository.getAllLists\<close> reads \<^verbatim>\<open>total\<close> before it filters: with the
  lists ``Work'' and ``Home'' in the store, the search for ``work'' returns the one list
  that matches, with a total of 2.
\<close>

theorem getAllLists_total_counts_unfiltered:
  "fst (ListRepository_getAllLists (Some \<lparr> lf_search = Some ''work'' \<rparr>) None None None ex_two_lists)
   = ([ex_list ''L1'' ''Work''], 2)"
  by code_simp

text \<open>
  Sorted by deadline in ascending order, the tasks without a deadline come last.
\<close>

lemma deadline_comparison:
  "task_comparison ''deadline'' a b =
     (case (t_deadline a, t_deadline b) of
        (None, None) \<Rightarrow> 0
      | (None, Some db) \<Rightarrow> 1
      | (Some da, None) \<Rightarrow> - 1
      | (Some da, Some db) \<Rightarrow> da - db)"
  by (simp add: task_comparison_def)

lemma deadline_comparison_le:
  "task_comparison ''deadline'' a b \<le> 0 \<Longrightarrow> t_deadline a = None \<Longrightarrow> t_deadline b = None"
  by (cases "t_deadline b") (simp_all add: deadline_comparison)

lemma deadline_comparison_gt:
  "\<not> task_comparison ''deadline'' a b \<le> 0 \<Longrightarrow> t_deadline b \<noteq> None"
  by (cases "t_deadline a"; cases "t_deadline b") (simp_all add: deadline_comparison)

lemma insort_deadline_asc_undated_last:
  assumes "undated_last ts"
  shows "undated_last (insort_cmp (task_comparison ''deadline'') x ts)"
  using assms
proof (induction ts)
  case Nil
  then show ?case by simp
next
  case (Cons y ys)
  show ?case
  proof (cases "task_comparison ''deadline'' x y \<le> 0")
    case True
    have "list_all (\<lambda>u. t_deadline u = None) (y # ys)" if "t_deadline x = None"
    proof -
      from deadline_comparison_le[OF True that] have "t_deadline y = None" .
      with Cons.prems show ?thesis by simp
    qed
    with True Cons.prems show ?thesis by simp
  next
    case False
    from deadline_comparison_gt[OF False] have "t_deadline y \<noteq> None" .
    moreover from Cons have "undated_last (insort_cmp (task_comparison ''deadline'') x ys)" by simp
    ultimately show ?thesis using False by auto
  qed
qed

lemma sortTasks_deadline_asc_undated_last:
  "undated_last (sortTasks ts \<lparr> sp_field = ''deadline'', sp_order = Asc \<rparr>)"
proof -
  have "undated_last (foldr (insort_cmp (task_comparison ''deadline'')) ts [])"
    by (induction ts) (simp_all add: insort_deadline_asc_undated_last)
  moreover have "sortTasks ts \<lparr> sp_field = ''deadline'', sp_order = Asc \<rparr>
      = foldr (insort_cmp (task_comparison ''deadline'')) ts []"
    by (simp add: sortTasks_def array_sort_def)
  ultimately show ?thesis by simp
qed

text \<open>
  Claim C7. The comparison of \<^verbatim>\<open>sortTasks\<close> is negated as a whole for the descending
  order, also where one of the tasks has no deadline: sorted by deadline descending, the
  task without a deadline comes first.
\<close>

theorem sortTasks_deadline_desc_undated_first:
  "sortTasks [ex_task ''T1'' ''L1'' (Some 10) HIGH PENDING, ex_task ''T2'' ''L1'' None LOW PENDING]
     \<lparr> sp_field = ''deadline'', sp_order = Desc \<rparr>
   = [ex_task ''T2'' ''L1'' None LOW PENDING, ex_task ''T1'' ''L1'' (Some 10) HIGH PENDING]"
  by (simp add: sortTasks_def array_sort_def task_comparison_def ex_task_def)

section \<open>Completing a completed task\<close>

text \<open>
  Claim C10, as stated, fails for the statistics of the store: \<^verbatim>\<open>completeTask\<close> looks
  the task up with \<^verbatim>\<open>getTaskById\<close>, which counts the access, so the store after the call
  on a completed task is not the store before it.
\<close>

theorem completeTask_completed_counts_access:
  "t_status (the (map_of (tasks (store_run (take 5 ex_store_ops) (new_MemoryStore 10))) ''T1'')) = COMPLETED
   \<and> operationsCount (stats (store_run (take 5 ex_store_ops) (new_MemoryStore 10))) = 5
   \<and> operationsCount (stats (snd (TaskRepository_completeTask ''T1'' 20
         (store_run (take 5 ex_store_ops) (new_MemoryStore 10))))) = 6
   \<and> snd (TaskRepository_completeTask ''T1'' 20 (store_run (take 5 ex_store_ops) (new_MemoryStore 10)))
       \<noteq> store_run (take 5 ex_store_ops) (new_MemoryStore 10)"
  by code_simp

text \<open>
  Claim C10, amended. \<^verbatim>\<open>completeTask\<close> on a task that is already completed returns the
  stored task and changes no record and no index: the lists, the tasks (with all their
  fields, \<^verbatim>\<open>updated_at\<close> and \<^verbatim>\<open>completed_at\<close> among them), all four indexes and the
  capacity of the store after the call are those before it. The store after the call is
  the store before it with the access counted in the statistics.
\<close>

theorem completeTask_completed_unchanged:
  assumes "map_of (tasks s) i = Some et" and "t_status et = COMPLETED"
  shows "fst (TaskRepository_completeTask i now s) = Some et
         \<and> lists_m (snd (TaskRepository_completeTask i now s)) = lists_m s
         \<and> tasks (snd (TaskRepository_completeTask i now s)) = tasks s
         \<and> indexes (snd (TaskRepository_completeTask i now s)) = indexes s
         \<and> maxSize (snd (TaskRepository_completeTask i now s)) = maxSize s
         \<and> snd (TaskRepository_completeTask i now s) = updateStats s"
  using assms by (simp add: TaskRepository_completeTask_def getTaskById_def)

theorem completeTask_completed_unchanged_witness:
  "map_of (tasks (store_run (take 5 ex_store_ops) (new_MemoryStore 10))) ''T1''
     = Some (ex_task ''T1'' ''L2'' (Some 1752105600000) HIGH COMPLETED
               \<lparr> t_completed_at := Some 7, t_updated_at := 7 \<rparr>)
   \<and> fst (TaskRepository_completeTask ''T1'' 20 (store_run (take 5 ex_store_ops) (new_MemoryStore 10)))
     = Some (ex_task ''T1'' ''L2'' (Some 1752105600000) HIGH COMPLETED
               \<lparr> t_completed_at := Some 7, t_updated_at := 7 \<rparr>)
   \<and> tasks (snd (TaskRepository_completeTask ''T1'' 20 (store_run (take 5 ex_store_ops) (new_MemoryStore 10))))
     = tasks (store_run (take 5 ex_store_ops) (new_MemoryStore 10))"
proof -
  have a: "map_of (tasks (store_run (take 5 ex_store_ops) (new_MemoryStore 10))) ''T1''
     = Some (ex_task ''T1'' ''L2'' (Some 1752105600000) HIGH COMPLETED
               \<lparr> t_completed_at := Some 7, t_updated_at := 7 \<rparr>)"
    by code_simp
  have b: "t_status (ex_task ''T1'' ''L2'' (Some 1752105600000) HIGH COMPLETED
               \<lparr> t_completed_at := Some 7, t_updated_at := 7 \<rparr>) = COMPLETED"
    by (simp add: ex_task_def)
  from completeTask_completed_unchanged[OF a b, of 20] a show ?thesis by simp
qed


section \<open>Deadline ranges\<close>












text \<open>
  The loop compares the moving time stamp, not its day, with the end of the range: from
  12:00 of a day to 06:00 of the second day after the epoch the bucket of the last day is
  not read, and a task due at 03:00 of that last day is left out.
\<close>

lemma deadline_range_stops_before_last_day:
  "fst (getTasksByDeadlineRange utc_addDay 43200000 108000000 (store_run ex_deadline_ops (new_MemoryStore 10)))
     = Some [ex_task ''T1'' ''L1'' (Some 28800000) HIGH PENDING]
   \<and> filter (deadline_in_range 43200000 108000000)
        (fst (getAllTasks (store_run ex_deadline_ops (new_MemoryStore 10))))
     = [ex_task ''T2'' ''L1'' (Some 97200000) LOW PENDING]"
  by code_simp

text \<open>
  Where the process runs in a time zone with daylight saving, a step of 25 hours passes
  over a whole UTC day: from 23:30 UTC of 25 October 2025 to 23:30 UTC of 27 October
  the buckets of 25 and 27 October are read, and a task due on 26 October is left out.
\<close>

lemma deadline_range_local_day_skips_bucket:
  "fst (getTasksByDeadlineRange ex_dst_addDay 1761435000000 1761607800000
          (store_run ex_dst_ops (new_MemoryStore 10))) = Some []
   \<and> filter (deadline_day_in_range 1761435000000 1761607800000)
        (fst (getAllTasks (store_run ex_dst_ops (new_MemoryStore 10))))
     = [ex_task ''T1'' ''L1'' (Some 1761480000000) HIGH PENDING]"
  by code_simp




section \<open>The repositories over the store\<close>


subsection \<open>completed_at\<close>

lemma ci_cong:
  "tasks s' = tasks s \<Longrightarrow> completed_iff s' = completed_iff s"
  by (simp add: completed_iff_def)

lemma ci_updateStats [simp]: "completed_iff (updateStats s) = completed_iff s"
  by (simp add: completed_iff_def)

lemma ci_updateListTaskCount [simp]: "completed_iff (updateListTaskCount l now s) = completed_iff s"
  by (simp add: completed_iff_def)

lemma ci_createList: "completed_iff s \<Longrightarrow> completed_iff (snd (createList l s))"
  by (simp add: createList_def Let_def completed_iff_def split: option.splits)

lemma ci_updateList: "completed_iff s \<Longrightarrow> completed_iff (snd (updateList i u now s))"
  by (simp add: updateList_def Let_def completed_iff_def split: option.splits)

lemma ci_createTask:
  "completed_iff s \<Longrightarrow> (t_completed_at t \<noteq> None) = (t_status t = COMPLETED) \<Longrightarrow>
   completed_iff (snd (createTask t now s))"
  by (auto simp: createTask_def Let_def completed_iff_def split: option.splits dest!: set_update_cases)

lemma merge_task_completed:
  assumes "(t_completed_at e \<noteq> None) = (t_status e = COMPLETED)"
    and "pt_completed_at u = None \<or> pt_status u = Some COMPLETED"
  shows "(t_completed_at (merge_task e u i now) \<noteq> None) = (t_status (merge_task e u i now) = COMPLETED)"
proof -
  consider "pt_status u = None" | "pt_status u = Some PENDING" | "pt_status u = Some COMPLETED"
    by (cases "pt_status u") (auto intro: TaskStatus.exhaust)
  then show ?thesis
    using assms by cases (auto simp: merge_task_def Let_def split: option.splits)
qed

lemma ci_updateTask:
  assumes "completed_iff s" and "pt_completed_at u = None \<or> pt_status u = Some COMPLETED"
  shows "completed_iff (snd (updateTask i u now s))"
proof (cases "map_of (tasks s) i")
  case None
  with assms show ?thesis by (simp add: updateTask_def Let_def)
next
  case (Some e)
  then have "(i, e) \<in> set (tasks s)" by (rule map_of_SomeD)
  with assms(1) have "(t_completed_at e \<noteq> None) = (t_status e = COMPLETED)"
    by (auto simp: completed_iff_def)
  from merge_task_completed[OF this assms(2)] assms(1) Some show ?thesis
    by (auto simp: updateTask_def Let_def completed_iff_def dest!: set_update_cases)
qed

lemma ci_deleteTask: "completed_iff s \<Longrightarrow> completed_iff (snd (deleteTask i now s))"
  by (auto simp: deleteTask_def Let_def completed_iff_def split: option.splits dest!: set_delete_cases)

lemma ci_deleteList: "completed_iff s \<Longrightarrow> completed_iff (snd (deleteList i c now s))"
proof -
  assume a: "completed_iff s"
  have f: "completed_iff (fold (\<lambda>taskId st. snd (deleteTask taskId now st)) ids (updateStats s))" for ids
    using a by (intro fold_deleteTask_preserves[where P = completed_iff] ci_deleteTask) simp_all
  have g: "completed_iff st \<Longrightarrow> completed_iff (st\<lparr> lists_m := x, stats := y \<rparr>)" for st x y
    by (simp add: completed_iff_def)
  show ?thesis
    using a f by (auto simp: deleteList_def Let_def split: option.splits intro!: g)
qed

lemma getters:
  "getListById i s = (map_of (lists_m s) i, updateStats s)"
  "getTaskById i s = (map_of (tasks s) i, updateStats s)"
  "getAllLists s = (map snd (lists_m s), updateStats s)"
  "getAllTasks s = (map snd (tasks s), updateStats s)"
  "snd (getTasksByListId i s) = updateStats s"
  by (simp_all add: getListById_def getTaskById_def getAllLists_def getAllTasks_def
        getTasksByListId_def Let_def split: option.splits)

lemma snd_rewrap:
  "snd (case p of (Inl e, s2) \<Rightarrow> (Inl e, s2) | (Inr u, s2) \<Rightarrow> (Inr v, s2)) = snd p"
  by (cases p) (auto split: sum.splits)

text \<open>What a repository method leaves behind, in terms of the store methods.\<close>

lemma repo_createList_cases:
  "repo_step (CreateList new_id now input) s = updateStats s \<or>
   repo_step (CreateList new_id now input) s
     = snd (createList (createList_record new_id now input) (updateStats s))"
  by (simp add: ListRepository_createList_def getters Let_def snd_rewrap)

lemma repo_updateList_cases:
  "\<exists>s1. (s1 = updateStats s \<or> s1 = updateStats (updateStats s)) \<and>
     (repo_step (UpdateList i now input) s = s1 \<or>
      repo_step (UpdateList i now input) s = snd (updateList i (updateList_data input now) now s1) \<or>
      repo_step (UpdateList i now input) s
        = updateStats (snd (updateList i (updateList_data input now) now s1)))"
  by (auto simp: ListRepository_updateList_def getters Let_def split: option.splits prod.splits)

lemma repo_deleteList_cases:
  "repo_step (DeleteList i c now) s = updateStats s \<or>
   (map_of (lists_m s) i \<noteq> None \<and>
    repo_step (DeleteList i c now) s = snd (deleteList i c now (updateStats (updateStats s))))"
proof (cases "map_of (lists_m s) i")
  case None
  then show ?thesis by (simp add: ListRepository_deleteList_def getters)
next
  case (Some el)
  obtain ts where "getTasksByListId i (updateStats s) = (ts, updateStats (updateStats s))"
    using getters(5)[of i "updateStats s"] by (cases "getTasksByListId i (updateStats s)") simp
  with Some show ?thesis by (simp add: ListRepository_deleteList_def getters)
qed

lemma repo_createTask_cases:
  "repo_step (CreateTask new_id now input) s = updateStats s \<or>
   (map_of (lists_m s) (cti_list_id input) \<noteq> None \<and>
    repo_step (CreateTask new_id now input) s
      = snd (createTask (createTask_record new_id now input) now (updateStats s)))"
  by (auto simp: TaskRepository_createTask_def getters Let_def snd_rewrap split: option.splits)

lemma repo_updateTask_cases:
  "\<exists>s1. (s1 = updateStats s \<or> s1 = updateStats (updateStats s)) \<and>
     (repo_step (UpdateTask i now input) s = s1 \<or>
      ((\<exists>et. map_of (tasks s) i = Some et \<and>
             (truthy (uti_list_id input) \<longrightarrow>
                uti_list_id input = Some (t_list_id et) \<or>
                map_of (lists_m s) (the (uti_list_id input)) \<noteq> None)) \<and>
       (repo_step (UpdateTask i now input) s = snd (updateTask i (updateTask_data input now) now s1) \<or>
        repo_step (UpdateTask i now input) s
          = updateStats (snd (updateTask i (updateTask_data input now) now s1)))))"
  by (auto simp: TaskRepository_updateTask_def getters Let_def split: option.splits prod.splits)

lemma repo_deleteTask_cases:
  "repo_step (DeleteTask i now) s = updateStats s \<or>
   repo_step (DeleteTask i now) s = snd (deleteTask i now (updateStats s))"
  by (auto simp: TaskRepository_deleteTask_def getters Let_def split: option.splits)

lemma repo_completeTask_cases:
  "repo_step (CompleteTask i now) s = updateStats s \<or>
   repo_step (CompleteTask i now) s = snd (updateTask i (completeTask_data now) now (updateStats s)) \<or>
   repo_step (CompleteTask i now) s
     = updateStats (snd (updateTask i (completeTask_data now) now (updateStats s)))"
  by (auto simp: TaskRepository_completeTask_def getters Let_def split: option.splits prod.splits)

lemma repo_uncompleteTask_cases:
  "repo_step (UncompleteTask i now) s = updateStats s \<or>
   (\<exists>et. map_of (tasks s) i = Some et \<and>
     (repo_step (UncompleteTask i now) s
        = snd (updateTask i (uncompleteTask_data et now) now (updateStats s)) \<or>
      repo_step (UncompleteTask i now) s
        = updateStats (snd (updateTask i (uncompleteTask_data et now) now (updateStats s)))))"
  by (auto simp: TaskRepository_uncompleteTask_def getters Let_def split: option.splits prod.splits)

lemma ci_repo_step: "completed_iff s \<Longrightarrow> completed_iff (repo_step x s)"
proof (cases x)
  case (CreateList new_id now input)
  assume "completed_iff s"
  then show ?thesis
    unfolding CreateList using repo_createList_cases[of new_id now input s]
    by (auto intro!: ci_createList)
next
  case (UpdateList i now input)
  assume "completed_iff s"
  then show ?thesis
    unfolding UpdateList using repo_updateList_cases[of s i now input]
    by (auto intro!: ci_updateList)
next
  case (DeleteList i c now)
  assume "completed_iff s"
  then show ?thesis
    unfolding DeleteList using repo_deleteList_cases[of i c now s]
    by (auto intro!: ci_deleteList)
next
  case (CreateTask new_id now input)
  assume "completed_iff s"
  then show ?thesis
    unfolding CreateTask using repo_createTask_cases[of new_id now input s]
    by (auto intro!: ci_createTask simp: createTask_record_def)
next
  case (UpdateTask i now input)
  assume "completed_iff s"
  then show ?thesis
    unfolding UpdateTask using repo_updateTask_cases[of s i now input]
    by (auto intro!: ci_updateTask simp: updateTask_data_def)
next
  case (DeleteTask i now)
  assume "completed_iff s"
  then show ?thesis
    unfolding DeleteTask using repo_deleteTask_cases[of i now s]
    by (auto intro!: ci_deleteTask)
next
  case (CompleteTask i now)
  assume "completed_iff s"
  then show ?thesis
    unfolding CompleteTask using repo_completeTask_cases[of i now s]
    by (auto intro!: ci_updateTask simp: completeTask_data_def)
next
  case (UncompleteTask i now)
  assume "completed_iff s"
  then show ?thesis
    unfolding UncompleteTask using repo_uncompleteTask_cases[of i now s]
    by (auto intro!: ci_updateTask simp: uncompleteTask_data_def)
qed

lemma ci_repo_run: "completed_iff s \<Longrightarrow> completed_iff (repo_run xs s)"
  by (induction xs arbitrary: s) (simp_all add: ci_repo_step)

lemma merge_task_into_completed:
  "pt_status u = Some COMPLETED \<Longrightarrow> t_status e \<noteq> COMPLETED \<Longrightarrow>
   t_status (merge_task e u i now) = COMPLETED \<and> t_completed_at (merge_task e u i now) = Some now"
  by (simp add: merge_task_def Let_def)

lemma merge_task_back_to_pending:
  "pt_status u = Some PENDING \<Longrightarrow>
   t_status (merge_task e u i now) = PENDING \<and> t_completed_at (merge_task e u i now) = None"
  by (simp add: merge_task_def Let_def)

lemma updateTask_data_no_completed_at: "pt_completed_at (updateTask_data input now) = None"
  by (simp add: updateTask_data_def)

text \<open>
  Claim C5. From a store in which every task has \<^verbatim>\<open>completed_at\<close> exactly when its status
  is completed (the new store is one), the same holds after every sequence of repository
  operations: creating, updating (by an \<^verbatim>\<open>UpdateTaskInput\<close>, which has no
  \<^verbatim>\<open>completed_at\<close>), completing, uncompleting and deleting tasks, and the list
  operations. The lemmas above give the two transitions: a patch to completed on a task
  that is not completed sets \<^verbatim>\<open>completed_at\<close>, a patch to pending removes it.
\<close>

theorem completed_at_iff_completed:
  assumes "completed_iff s"
  shows "completed_iff (repo_run xs s)"
  using assms by (rule ci_repo_run)

theorem completed_at_iff_completed_witness:
  "completed_iff (new_MemoryStore 10) \<and> completed_iff (repo_run ex_repo_ops (new_MemoryStore 10))
   \<and> map (\<lambda>(k, t). (k, t_status t, t_completed_at t)) (tasks (repo_run (take 8 ex_repo_ops) (new_MemoryStore 10)))
     = [(''T1'', PENDING, None), (''T2'', COMPLETED, Some 7), (''T3'', PENDING, None)]"
proof -
  have a: "completed_iff (new_MemoryStore 10)"
    by (simp add: completed_iff_def new_MemoryStore_def)
  have b: "map (\<lambda>(k, t). (k, t_status t, t_completed_at t)) (tasks (repo_run (take 8 ex_repo_ops) (new_MemoryStore 10)))
     = [(''T1'', PENDING, None), (''T2'', COMPLETED, Some 7), (''T3'', PENDING, None)]"
    by code_simp
  from completed_at_iff_completed[OF a, of ex_repo_ops] a b show ?thesis by simp
qed


section \<open>Task counts of lists\<close>


subsection \<open>Bucket sizes and counts\<close>

lemma bucket_size_add:
  "bucket_size (index_add k x m) k'
   = (if k' = k \<and> \<not> in_bucket m k x then bucket_size m k + 1 else bucket_size m k')"
  by (auto simp: bucket_size_def index_add_def in_bucket_def set_add_def update_conv'
           split: option.splits)

lemma bucket_size_remove:
  assumes "\<forall>(k, ids) \<in> set m. distinct ids"
  shows "bucket_size (index_remove k x m) k'
   = (if k' = k \<and> in_bucket m k x then bucket_size m k - 1 else bucket_size m k')"
proof (cases "map_of m k")
  case None
  then show ?thesis by (simp add: index_remove_def in_bucket_def)
next
  case (Some ids)
  then have "(k, ids) \<in> set m" by (rule map_of_SomeD)
  with assms have d: "distinct ids" by auto
  have len: "int (length (removeAll x ids))
             = (if x \<in> set ids then int (length ids) - 1 else int (length ids))"
  proof (cases "x \<in> set ids")
    case True
    then obtain n where n: "length ids = Suc n" by (cases ids) auto
    from d have "length (removeAll x ids) = length (remove1 x ids)"
      by (simp add: distinct_remove1_removeAll)
    also have "\<dots> = n" using True n by (simp add: length_remove1)
    finally show ?thesis using True n by simp
  next
    case False
    then show ?thesis by simp
  qed
  show ?thesis
  proof (cases "removeAll x ids = []")
    case True
    with len have "(if x \<in> set ids then int (length ids) - 1 else int (length ids)) = 0" by simp
    with Some True show ?thesis
      by (auto simp: bucket_size_def index_remove_def in_bucket_def set_delete_def Let_def
                     delete_conv' split: if_splits)
  next
    case False
    with Some len show ?thesis
      by (auto simp: bucket_size_def index_remove_def in_bucket_def set_delete_def Let_def
                     update_conv')
  qed
qed

lemma bucket_size_empty:
  assumes "\<And>x. \<not> in_bucket m k x"
  shows "bucket_size m k = 0"
proof (cases "map_of m k")
  case None
  then show ?thesis by (simp add: bucket_size_def)
next
  case (Some ids)
  have "ids = []"
  proof (cases ids)
    case Nil
    then show ?thesis .
  next
    case (Cons a as)
    with assms[of a] Some show ?thesis by (simp add: in_bucket_def)
  qed
  with Some show ?thesis by (simp add: bucket_size_def)
qed

lemma cme_weaken: "counts_match_except A s \<Longrightarrow> A \<subseteq> B \<Longrightarrow> counts_match_except B s"
  by (auto simp: counts_match_except_def)

lemma update_value_unique:
  assumes "distinct (map fst al)" and "(k, v) \<in> set (AList.update k v' al)"
  shows "v = v'"
proof -
  from assms(1) have "distinct (map fst (AList.update k v' al))" by (rule distinct_update)
  with assms(2) have "map_of (AList.update k v' al) k = Some v" by simp
  then show ?thesis by (simp add: update_conv')
qed

lemma cme_recount:
  assumes "distinct (map fst (lists_m s))" and "counts_match_except A s"
  shows "counts_match_except (A - {L}) (updateListTaskCount L now s)"
proof (cases "map_of (lists_m s) L")
  case None
  then have "\<And>l. (L, l) \<notin> set (lists_m s)"
    by (metis assms(1) map_of_eq_Some_iff option.distinct(1))
  with assms(2) None show ?thesis
    by (auto simp: updateListTaskCount_def counts_match_except_def)
next
  case (Some l)
  show ?thesis
    unfolding counts_match_except_def
  proof (clarify)
    fix k v
    assume in': "(k, v) \<in> set (lists_m (updateListTaskCount L now s))" and nk: "k \<notin> A - {L}"
    let ?l' = "l\<lparr> l_tasks_count := bucket_size (tasksByListId (indexes s)) L, l_updated_at := now \<rparr>"
    have upd: "lists_m (updateListTaskCount L now s) = AList.update L ?l' (lists_m s)"
      using Some by (simp add: updateListTaskCount_def bucket_size_def)
    show "l_tasks_count v = bucket_size (tasksByListId (indexes (updateListTaskCount L now s))) k"
    proof (cases "k = L")
      case True
      with in' upd have "v = ?l'"
        using update_value_unique[OF assms(1), of L v ?l'] by simp
      with True show ?thesis by simp
    next
      case False
      with in' upd have "(k, v) \<in> set (lists_m s)"
        by (auto dest!: set_update_cases)
      with assms(2) nk False show ?thesis
        by (auto simp: counts_match_except_def)
    qed
  qed
qed

lemma cme_cong:
  "lists_m s' = lists_m s \<Longrightarrow> tasksByListId (indexes s') = tasksByListId (indexes s) \<Longrightarrow>
   counts_match_except A s' = counts_match_except A s"
  by (simp add: counts_match_except_def)

lemma cmi_updateStats [simp]: "counts_match_index (updateStats s) = counts_match_index s"
  by (simp add: counts_match_index_def counts_match_except_def)

lemma wf_buckets: "store_wf s \<Longrightarrow> \<forall>(k, ids) \<in> set (tasksByListId (indexes s)). distinct ids"
  by (simp add: store_wf_def)

lemma wf_lists_distinct: "store_wf s \<Longrightarrow> distinct (map fst (lists_m s))"
  by (simp add: store_wf_def)

lemma byList_consistent:
  "index_consistent s \<Longrightarrow>
   in_bucket (tasksByListId (indexes s)) k x = (\<exists>t. map_of (tasks s) x = Some t \<and> t_list_id t = k)"
  by (simp add: index_consistent_def)


lemma cmi_createTask:
  assumes "store_inv s" and "counts_match_index s"
  shows "counts_match_index (snd (createTask t now s))"
proof (cases "checkCapacity s")
  case (Some e)
  with assms show ?thesis by (simp add: createTask_def)
next
  case None
  define s4 where "s4 = (updateTaskIndexes t ((updateStats s)\<lparr> tasks := AList.update (t_id t) t (tasks s) \<rparr>))
                          \<lparr> stats := (stats (updateStats s))\<lparr> tasksCount := tasksCount (stats (updateStats s)) + 1 \<rparr> \<rparr>"
  have l: "lists_m s4 = lists_m s"
    and b: "tasksByListId (indexes s4) = index_add (t_list_id t) (t_id t) (tasksByListId (indexes s))"
    by (simp_all add: s4_def updateTaskIndexes_byList)
  from assms(2) have "counts_match_except {t_list_id t} s4"
    by (auto simp: counts_match_index_def counts_match_except_def l b bucket_size_add)
  moreover from assms(1) have "distinct (map fst (lists_m s4))"
    by (simp add: l store_inv_def store_wf_def)
  ultimately have "counts_match_except ({t_list_id t} - {t_list_id t}) (updateListTaskCount (t_list_id t) now s4)"
    by (rule cme_recount[rotated])
  moreover have "snd (createTask t now s) = updateListTaskCount (t_list_id t) now s4"
    by (simp add: createTask_def None Let_def s4_def)
  ultimately show ?thesis by (simp add: counts_match_index_def)
qed

lemma cmi_deleteTask:
  assumes "store_inv s" and "counts_match_index s"
  shows "counts_match_index (snd (deleteTask i now s))"
proof (cases "map_of (tasks s) i")
  case None
  with assms show ?thesis by (simp add: deleteTask_def Let_def)
next
  case (Some e)
  define s4 where "s4 = ((removeTaskFromIndexes e (updateStats s))\<lparr> tasks := AList.delete i (tasks s) \<rparr>)
                          \<lparr> stats := (stats (updateStats s))\<lparr> tasksCount := tasksCount (stats (updateStats s)) - 1 \<rparr> \<rparr>"
  have l: "lists_m s4 = lists_m s"
    and b: "tasksByListId (indexes s4) = index_remove (t_list_id e) (t_id e) (tasksByListId (indexes s))"
    by (simp_all add: s4_def removeTaskFromIndexes_byList)
  from assms(1) have wfb: "\<forall>(k, ids) \<in> set (tasksByListId (indexes s)). distinct ids"
    by (simp add: store_inv_def store_wf_def)
  from assms(2) have "counts_match_except {t_list_id e} s4"
    by (auto simp: counts_match_index_def counts_match_except_def l b bucket_size_remove[OF wfb])
  moreover from assms(1) have "distinct (map fst (lists_m s4))"
    by (simp add: l store_inv_def store_wf_def)
  ultimately have "counts_match_except ({t_list_id e} - {t_list_id e}) (updateListTaskCount (t_list_id e) now s4)"
    by (rule cme_recount[rotated])
  moreover have "snd (deleteTask i now s) = updateListTaskCount (t_list_id e) now s4"
    by (simp add: deleteTask_def Some Let_def s4_def)
  ultimately show ?thesis by (simp add: counts_match_index_def)
qed


lemma merge_task_list_id:
  "t_list_id (merge_task e u i now) = (case pt_list_id u of None \<Rightarrow> t_list_id e | Some v \<Rightarrow> v)"
  by (simp add: merge_task_def Let_def)

lemma distinct_lists_recount:
  "distinct (map fst (lists_m s)) \<Longrightarrow> distinct (map fst (lists_m (updateListTaskCount L now s)))"
  by (auto simp: updateListTaskCount_def distinct_update split: option.splits)

lemma cmi_updateTask:
  assumes "store_inv s" and "counts_match_index s"
    and "\<And>e. map_of (tasks s) i = Some e \<Longrightarrow> pt_list_id u = Some [] \<Longrightarrow> t_list_id e = []"
  shows "counts_match_index (snd (updateTask i u now s))"
proof (cases "map_of (tasks s) i")
  case None
  with assms show ?thesis by (simp add: updateTask_def Let_def)
next
  case (Some e)
  from assms(1) have wf: "store_wf s" and ic: "index_consistent s"
    by (simp_all add: store_inv_def)
  from wf Some have k: "t_id e = i" by (rule wf_task_key)
  let ?m = "tasksByListId (indexes s)"
  let ?L = "t_list_id e"
  let ?u = "merge_task e u i now"
  let ?L' = "t_list_id ?u"
  define s4 where "s4 = updateTaskIndexes ?u
                          ((removeTaskFromIndexes e (updateStats s))\<lparr> tasks := AList.update i ?u (tasks s) \<rparr>)"
  have l: "lists_m s4 = lists_m s"
    and b: "tasksByListId (indexes s4) = index_add ?L' i (index_remove ?L i ?m)"
    by (simp_all add: s4_def updateTaskIndexes_byList removeTaskFromIndexes_byList k)
  from wf have wfb: "\<forall>(k, ids) \<in> set ?m. distinct ids" by (rule wf_buckets)
  from ic Some have own: "\<And>kk. in_bucket ?m kk i = (?L = kk)"
    by (simp add: byList_consistent)
  have notin: "\<not> in_bucket (index_remove ?L i ?m) ?L' i"
    using own[of ?L'] by (auto simp: in_bucket_index_remove)
  have size: "bucket_size (tasksByListId (indexes s4)) kk
      = (if ?L' = ?L then bucket_size ?m kk
         else if kk = ?L' then bucket_size ?m ?L' + 1
         else if kk = ?L then bucket_size ?m ?L - 1
         else bucket_size ?m kk)" for kk
    using notin own[of ?L] by (simp add: b bucket_size_add bucket_size_remove[OF wfb])
  from wf have dl: "distinct (map fst (lists_m s4))"
    by (simp add: l store_wf_def)
  show ?thesis
  proof (cases "?L' = ?L")
    case True
    with assms(2) have "counts_match_except {} s4"
      by (auto simp: counts_match_index_def counts_match_except_def l size)
    moreover have "snd (updateTask i u now s) = s4
        \<or> snd (updateTask i u now s)
             = updateListTaskCount (the (pt_list_id u)) now (updateListTaskCount ?L now s4)"
      by (simp add: updateTask_def Some Let_def s4_def)
    moreover have "counts_match_except {} (updateListTaskCount x now (updateListTaskCount y now s4))" for x y
    proof -
      have c0: "counts_match_except {} s4" by fact
      have c1: "counts_match_except ({} - {y}) (updateListTaskCount y now s4)"
        by (rule cme_recount[OF dl c0])
      have d1: "distinct (map fst (lists_m (updateListTaskCount y now s4)))"
        using dl by (rule distinct_lists_recount)
      have "counts_match_except ({} - {y} - {x}) (updateListTaskCount x now (updateListTaskCount y now s4))"
        by (rule cme_recount[OF d1 c1])
      then show ?thesis by simp
    qed
    ultimately show ?thesis by (auto simp: counts_match_index_def)
  next
    case False
    then obtain v where v: "pt_list_id u = Some v" "v = ?L'" "v \<noteq> ?L"
      by (cases "pt_list_id u") (auto simp: merge_task_list_id)
    with assms(3)[OF Some] have tr: "truthy (pt_list_id u)" by (auto simp: truthy_def)
    from assms(2) False have "counts_match_except {?L, ?L'} s4"
      by (auto simp: counts_match_index_def counts_match_except_def l size)
    then have c1: "counts_match_except ({?L, ?L'} - {?L}) (updateListTaskCount ?L now s4)"
      by (rule cme_recount[OF dl])
    have d1: "distinct (map fst (lists_m (updateListTaskCount ?L now s4)))"
      using dl by (rule distinct_lists_recount)
    have "counts_match_except ({?L, ?L'} - {?L} - {?L'})
        (updateListTaskCount ?L' now (updateListTaskCount ?L now s4))"
      by (rule cme_recount[OF d1 c1])
    then have "counts_match_except {}
        (updateListTaskCount ?L' now (updateListTaskCount ?L now s4))"
      by (rule cme_weaken) auto
    moreover have "snd (updateTask i u now s)
        = updateListTaskCount ?L' now (updateListTaskCount ?L now s4)"
      using v tr by (simp add: updateTask_def Some Let_def s4_def)
    ultimately show ?thesis by (simp add: counts_match_index_def)
  qed
qed


lemma cmi_createList:
  assumes "store_inv s" and "counts_match_index s" and "l_tasks_count l = 0"
    and "\<forall>(k, t) \<in> set (tasks s). t_list_id t \<noteq> l_id l"
  shows "counts_match_index (snd (createList l s))"
proof (cases "checkCapacity s")
  case (Some e)
  with assms show ?thesis by (simp add: createList_def)
next
  case None
  from assms(1) have ic: "index_consistent s" by (simp add: store_inv_def)
  have "\<not> in_bucket (tasksByListId (indexes s)) (l_id l) x" for x
    using assms(4) by (auto simp: byList_consistent[OF ic] dest!: map_of_SomeD)
  then have "bucket_size (tasksByListId (indexes s)) (l_id l) = 0"
    by (rule bucket_size_empty)
  with assms(2,3) show ?thesis
    by (auto simp: createList_def None Let_def counts_match_index_def counts_match_except_def
             dest!: set_update_cases)
qed

lemma cmi_updateList:
  assumes "counts_match_index s" and "pl_tasks_count u = None"
  shows "counts_match_index (snd (updateList i u now s))"
proof (cases "map_of (lists_m s) i")
  case None
  with assms show ?thesis by (simp add: updateList_def Let_def)
next
  case (Some el)
  then have "(i, el) \<in> set (lists_m s)" by (rule map_of_SomeD)
  with assms(1) have "l_tasks_count el = bucket_size (tasksByListId (indexes s)) i"
    by (auto simp: counts_match_index_def counts_match_except_def)
  with assms show ?thesis
    by (auto simp: updateList_def Some Let_def merge_list_def counts_match_index_def
                   counts_match_except_def dest!: set_update_cases)
qed

lemma repo_inv_updateStats [simp]: "repo_inv (updateStats s) = repo_inv s"
  by (simp add: repo_inv_def)

lemma repo_inv_deleteTask: "repo_inv s \<Longrightarrow> repo_inv (snd (deleteTask i now s))"
  by (simp add: repo_inv_def inv_deleteTask cmi_deleteTask)

lemma repo_inv_createTask:
  "repo_inv s \<Longrightarrow> map_of (tasks s) (t_id t) = None \<Longrightarrow> repo_inv (snd (createTask t now s))"
  by (simp add: repo_inv_def inv_createTask cmi_createTask)

lemma repo_inv_updateTask:
  assumes "repo_inv s"
    and "\<And>e. map_of (tasks s) i = Some e \<Longrightarrow> pt_list_id u = Some [] \<Longrightarrow> t_list_id e = []"
  shows "repo_inv (snd (updateTask i u now s))"
proof -
  from assms(1) have a: "store_inv s" and b: "counts_match_index s"
    by (simp_all add: repo_inv_def)
  have "counts_match_index (snd (updateTask i u now s))"
    using a b assms(2) by (rule cmi_updateTask)
  with a show ?thesis by (simp add: repo_inv_def inv_updateTask)
qed

lemma repo_inv_createList:
  "repo_inv s \<Longrightarrow> l_tasks_count l = 0 \<Longrightarrow> \<forall>(k, t) \<in> set (tasks s). t_list_id t \<noteq> l_id l \<Longrightarrow>
   repo_inv (snd (createList l s))"
  by (simp add: repo_inv_def inv_createList cmi_createList)

lemma repo_inv_updateList:
  "repo_inv s \<Longrightarrow> pl_tasks_count u = None \<Longrightarrow> repo_inv (snd (updateList i u now s))"
  by (simp add: repo_inv_def inv_updateList cmi_updateList)

lemma repo_inv_lists_delete:
  "repo_inv s \<Longrightarrow> lists_m s = al \<Longrightarrow> repo_inv (s\<lparr> lists_m := AList.delete k al, stats := x \<rparr>)"
  unfolding repo_inv_def
  by (auto simp: inv_lists_stats counts_match_index_def counts_match_except_def
           dest!: set_delete_cases)

lemma repo_inv_deleteList: "repo_inv s \<Longrightarrow> repo_inv (snd (deleteList i c now s))"
proof -
  assume a: "repo_inv s"
  have f: "repo_inv (fold (\<lambda>taskId st. snd (deleteTask taskId now st)) ids (updateStats s))" for ids
    using a by (intro fold_deleteTask_preserves[where P = repo_inv] repo_inv_deleteTask) simp_all
  show ?thesis
    using a f by (auto simp: deleteList_def Let_def split: option.splits intro!: repo_inv_lists_delete)
qed

lemma repo_inv_new: "repo_inv (new_MemoryStore n)"
proof -
  have "counts_match_index (new_MemoryStore n)"
    by (simp add: counts_match_index_def counts_match_except_def new_MemoryStore_def)
  with inv_new[of n] show ?thesis by (simp add: repo_inv_def)
qed

lemma record_fields [simp]:
  "l_id (createList_record new_id now cl) = new_id"
  "l_tasks_count (createList_record new_id now cl) = 0"
  "t_id (createTask_record new_id now ct) = new_id"
  "t_list_id (createTask_record new_id now ct) = cti_list_id ct"
  "t_status (createTask_record new_id now ct) = PENDING"
  "t_completed_at (createTask_record new_id now ct) = None"
  "pl_tasks_count (updateList_data ul now) = None"
  "pt_list_id (updateTask_data ut now) = uti_list_id ut"
  "pt_completed_at (updateTask_data ut now) = None"
  "pt_list_id (completeTask_data now) = None"
  "pt_status (completeTask_data now) = Some COMPLETED"
  "pt_list_id (uncompleteTask_data et now) = Some (t_list_id et)"
  "pt_status (uncompleteTask_data et now) = Some PENDING"
  "pt_completed_at (uncompleteTask_data et now) = None"
  by (simp_all add: createList_record_def createTask_record_def updateList_data_def
        updateTask_data_def completeTask_data_def uncompleteTask_data_def)

lemma repo_inv_step:
  assumes "repo_inv s" and "repo_op_ok s x"
  shows "repo_inv (repo_step x s)"
proof (cases x)
  case (CreateList new_id now input)
  with assms(2) have fr: "\<forall>(k, t) \<in> set (tasks (updateStats s)).
      t_list_id t \<noteq> l_id (createList_record new_id now input)" by simp
  have "repo_inv (snd (createList (createList_record new_id now input) (updateStats s)))"
    using assms(1) by (intro repo_inv_createList fr) simp_all
  with assms(1) show ?thesis
    unfolding CreateList using repo_createList_cases[of new_id now input s]
    by auto
next
  case (UpdateList i now input)
  with assms(1) show ?thesis
    using repo_updateList_cases[of s i now input]
    by (auto intro!: repo_inv_updateList)
next
  case (DeleteList i c now)
  with assms(1) show ?thesis
    using repo_deleteList_cases[of i c now s]
    by (auto intro!: repo_inv_deleteList)
next
  case (CreateTask new_id now input)
  with assms(2) have "map_of (tasks s) new_id = None" by simp
  with assms(1) show ?thesis
    unfolding CreateTask using repo_createTask_cases[of new_id now input s]
    by (auto intro!: repo_inv_createTask)
next
  case (UpdateTask i now input)
  with assms(2) have "uti_list_id input \<noteq> Some []" by simp
  with assms(1) show ?thesis
    unfolding UpdateTask using repo_updateTask_cases[of s i now input]
    by (auto intro!: repo_inv_updateTask)
next
  case (DeleteTask i now)
  with assms(1) show ?thesis
    using repo_deleteTask_cases[of i now s]
    by (auto intro!: repo_inv_deleteTask)
next
  case (CompleteTask i now)
  with assms(1) show ?thesis
    using repo_completeTask_cases[of i now s]
    by (auto intro!: repo_inv_updateTask)
next
  case (UncompleteTask i now)
  with assms(1) show ?thesis
    using repo_uncompleteTask_cases[of i now s]
    by (auto intro!: repo_inv_updateTask)
qed

lemma repo_inv_run: "repo_inv s \<Longrightarrow> repo_ops_ok s xs \<Longrightarrow> repo_inv (repo_run xs s)"
  by (induction xs arbitrary: s) (simp_all add: repo_inv_step)



lemma bucket_size_counts_tasks:
  assumes "store_inv s"
  shows "bucket_size (tasksByListId (indexes s)) k = int (tasks_referencing s k)"
proof -
  from assms have wf: "store_wf s" and ic: "index_consistent s"
    by (simp_all add: store_inv_def)
  from wf have dt: "distinct (map fst (tasks s))" by (simp add: store_wf_def)
  let ?sel = "filter (\<lambda>(x, t). t_list_id t = k) (tasks s)"
  have ref: "tasks_referencing s k = length (map fst ?sel)"
    by (simp add: tasks_referencing_def filter_map comp_def case_prod_unfold)
  have dsel: "distinct (map fst ?sel)"
    using dt by (rule distinct_map_filter)
  have ssel: "set (map fst ?sel) = {x. in_bucket (tasksByListId (indexes s)) k x}"
    using dt by (force simp: byList_consistent[OF ic])
  show ?thesis
  proof (cases "map_of (tasksByListId (indexes s)) k")
    case None
    then have "\<And>x. \<not> in_bucket (tasksByListId (indexes s)) k x"
      by (simp add: in_bucket_def)
    with ssel have "set (map fst ?sel) = {}" by simp
    then have "map fst ?sel = []" by (simp only: set_empty)
    with None ref show ?thesis by (simp add: bucket_size_def)
  next
    case (Some ids)
    then have "(k, ids) \<in> set (tasksByListId (indexes s))" by (rule map_of_SomeD)
    with wf have d: "distinct ids" by (auto simp: store_wf_def)
    from Some have "set ids = {x. in_bucket (tasksByListId (indexes s)) k x}"
      by (auto simp: in_bucket_def)
    with ssel have "set ids = set (map fst ?sel)" by simp
    with d dsel have "length ids = length (map fst ?sel)"
      by (metis distinct_card)
    with Some ref show ?thesis by (simp add: bucket_size_def)
  qed
qed

lemma repo_inv_counts_ok: "repo_inv s \<Longrightarrow> counts_ok s"
  by (auto simp: repo_inv_def counts_ok_def counts_match_index_def counts_match_except_def
                 bucket_size_counts_tasks)

text \<open>
  Claim C3. From a store that satisfies the invariant of the repositories (the new store
  does), after every sequence of repository operations (creating, updating and deleting
  lists and tasks, with moves of tasks between lists and list deletions with or without
  cascade), every list in the store has a \<^verbatim>\<open>tasks_count\<close> equal to the number of task
  records whose \<^verbatim>\<open>list_id\<close> is the id of the list. The identifiers of created records
  are new, and a \<^verbatim>\<open>list_id\<close> in a task patch is not the empty string.
\<close>

theorem tasks_count_matches_tasks:
  assumes "repo_inv s" and "repo_ops_ok s xs"
  shows "counts_ok (repo_run xs s)"
  using repo_inv_run[OF assms] by (rule repo_inv_counts_ok)

theorem tasks_count_matches_tasks_witness:
  "repo_inv (new_MemoryStore 10) \<and> repo_ops_ok (new_MemoryStore 10) ex_repo_ops
   \<and> counts_ok (repo_run ex_repo_ops (new_MemoryStore 10))
   \<and> map (\<lambda>(k, l). (k, l_tasks_count l)) (lists_m (repo_run (take 6 ex_repo_ops) (new_MemoryStore 10)))
     = [(''L1'', 1), (''L2'', 2)]"
proof -
  have a: "repo_ops_ok (new_MemoryStore 10) ex_repo_ops" by code_simp
  have b: "map (\<lambda>(k, l). (k, l_tasks_count l)) (lists_m (repo_run (take 6 ex_repo_ops) (new_MemoryStore 10)))
     = [(''L1'', 1), (''L2'', 2)]" by code_simp
  from tasks_count_matches_tasks[OF repo_inv_new a] repo_inv_new a b show ?thesis by simp
qed


section \<open>Tasks refer to lists\<close>


subsection \<open>References to lists\<close>

lemma ref_updateStats [simp]: "ref_ok (updateStats s) = ref_ok s"
  by (simp add: ref_ok_def)

lemma updateListTaskCount_keys [simp]:
  "(map_of (lists_m (updateListTaskCount L now s)) k = None) = (map_of (lists_m s) k = None)"
  by (auto simp: updateListTaskCount_def update_conv' split: option.splits)

lemma updateListTaskCount_keys' [simp]:
  "(\<exists>y. map_of (lists_m (updateListTaskCount L now s)) k = Some y) = (\<exists>y. map_of (lists_m s) k = Some y)"
  using updateListTaskCount_keys[of L now s k] by (simp only: not_None_eq[symmetric])

lemma ref_recount [simp]: "ref_ok (updateListTaskCount L now s) = ref_ok s"
  by (simp add: ref_ok_def)

lemma ref_createList: "ref_ok s \<Longrightarrow> ref_ok (snd (createList l s))"
  by (auto simp: createList_def Let_def ref_ok_def update_conv' split: option.splits)

lemma ref_updateList: "ref_ok s \<Longrightarrow> ref_ok (snd (updateList i u now s))"
  by (auto simp: updateList_def Let_def ref_ok_def update_conv' split: option.splits)

lemma ref_createTask:
  "ref_ok s \<Longrightarrow> map_of (lists_m s) (t_list_id t) \<noteq> None \<Longrightarrow> ref_ok (snd (createTask t now s))"
  by (auto simp: createTask_def Let_def ref_ok_def split: option.splits dest!: set_update_cases)

lemma ref_deleteTask: "ref_ok s \<Longrightarrow> ref_ok (snd (deleteTask i now s))"
  by (auto simp: deleteTask_def Let_def ref_ok_def split: option.splits dest!: set_delete_cases)

lemma ref_updateTask:
  assumes "ref_ok s"
    and "\<And>v. pt_list_id u = Some v \<Longrightarrow> map_of (lists_m s) v \<noteq> None"
  shows "ref_ok (snd (updateTask i u now s))"
proof (cases "map_of (tasks s) i")
  case None
  with assms show ?thesis by (simp add: updateTask_def Let_def)
next
  case (Some e)
  then have "(i, e) \<in> set (tasks s)" by (rule map_of_SomeD)
  with assms(1) have "map_of (lists_m s) (t_list_id e) \<noteq> None"
    by (auto simp: ref_ok_def)
  with assms(2) have "map_of (lists_m s) (t_list_id (merge_task e u i now)) \<noteq> None"
    by (cases "pt_list_id u") (simp_all add: merge_task_list_id)
  with assms(1) Some show ?thesis
    by (auto simp: updateTask_def Let_def ref_ok_def dest!: set_update_cases)
qed

lemma deleteTask_tasks:
  "map_of (tasks (snd (deleteTask x now s))) y = (if y = x then None else map_of (tasks s) y)"
  by (auto simp: deleteTask_def Let_def delete_conv' split: option.splits)

lemma deleteTask_list_keys:
  "(map_of (lists_m (snd (deleteTask x now s))) k = None) = (map_of (lists_m s) k = None)"
  by (auto simp: deleteTask_def Let_def split: option.splits)

lemma fold_deleteTask_tasks:
  "map_of (tasks (fold (\<lambda>taskId st. snd (deleteTask taskId now st)) ids s)) y
   = (if y \<in> set ids then None else map_of (tasks s) y)"
  by (induction ids arbitrary: s) (auto simp: deleteTask_tasks)

lemma fold_deleteTask_list_keys:
  "(map_of (lists_m (fold (\<lambda>taskId st. snd (deleteTask taskId now st)) ids s)) k = None)
   = (map_of (lists_m s) k = None)"
  by (induction ids arbitrary: s) (auto simp: deleteTask_list_keys)

lemma ref_ok_map_of:
  assumes "distinct (map fst (tasks s))"
  shows "ref_ok s \<longleftrightarrow> (\<forall>x t. map_of (tasks s) x = Some t \<longrightarrow> map_of (lists_m s) (t_list_id t) \<noteq> None)"
  using assms by (auto simp: ref_ok_def)

lemma ref_deleteList_cascade:
  assumes "store_inv s" and "ref_ok s"
  shows "ref_ok (snd (deleteList i True now s))"
proof (cases "map_of (lists_m s) i")
  case None
  with assms show ?thesis by (simp add: deleteList_def Let_def)
next
  case (Some l)
  define ids where "ids = (case map_of (tasksByListId (indexes s)) i of None \<Rightarrow> [] | Some taskIds \<Rightarrow> taskIds)"
  define s2 where "s2 = fold (\<lambda>taskId st. snd (deleteTask taskId now st)) ids (updateStats s)"
  have s2inv: "store_inv s2"
    unfolding s2_def using assms(1)
    by (intro fold_deleteTask_preserves[where P = store_inv] inv_deleteTask) simp_all
  then have d2: "distinct (map fst (tasks s2))" by (simp add: store_inv_def store_wf_def)
  from assms(1) have d: "distinct (map fst (tasks s))" and ic: "index_consistent s"
    by (simp_all add: store_inv_def store_wf_def)
  have inb: "in_bucket (tasksByListId (indexes s)) i x = (x \<in> set ids)" for x
    by (simp add: in_bucket_def ids_def split: option.splits)
  have t2: "map_of (tasks s2) y = (if y \<in> set ids then None else map_of (tasks s) y)" for y
    by (simp add: s2_def fold_deleteTask_tasks)
  have l2: "(map_of (lists_m s2) k = None) = (map_of (lists_m s) k = None)" for k
    by (simp add: s2_def fold_deleteTask_list_keys)
  have res: "snd (deleteList i True now s)
      = s2\<lparr> lists_m := AList.delete i (lists_m s2),
              stats := (stats s2)\<lparr> listsCount := listsCount (stats s2) - 1 \<rparr> \<rparr>"
    using Some by (simp add: deleteList_def Let_def s2_def ids_def split: option.splits)
  have "map_of (AList.delete i (lists_m s2)) (t_list_id t) \<noteq> None"
    if "map_of (tasks s2) x = Some t" for x t
  proof -
    from that have nx: "x \<notin> set ids" and old: "map_of (tasks s) x = Some t"
      by (simp_all add: t2 split: if_splits)
    from nx old have ne: "t_list_id t \<noteq> i"
      using inb[of x] byList_consistent[OF ic, of i x] by auto
    from old assms(2) d have "map_of (lists_m s) (t_list_id t) \<noteq> None"
      by (auto simp: ref_ok_def)
    with ne show ?thesis by (simp add: delete_conv' l2)
  qed
  then have "ref_ok (s2\<lparr> lists_m := AList.delete i (lists_m s2),
              stats := (stats s2)\<lparr> listsCount := listsCount (stats s2) - 1 \<rparr> \<rparr>)"
    using d2 by (auto simp: ref_ok_def)
  with res show ?thesis by simp
qed


lemma ref_repo_step:
  assumes "repo_inv s" and "ref_ok s" and "repo_op_ok s x" and "cascading x"
  shows "ref_ok (repo_step x s)"
proof (cases x)
  case (CreateList new_id now input)
  with assms(2) show ?thesis
    using repo_createList_cases[of new_id now input s]
    by (auto intro!: ref_createList)
next
  case (UpdateList i now input)
  with assms(2) show ?thesis
    using repo_updateList_cases[of s i now input]
    by (auto intro!: ref_updateList)
next
  case (DeleteList i c now)
  with assms(4) have c: "c = True" by simp
  from assms(1) have "store_inv (updateStats (updateStats s))"
    by (simp add: repo_inv_def)
  moreover from assms(2) have "ref_ok (updateStats (updateStats s))" by simp
  ultimately have "ref_ok (snd (deleteList i True now (updateStats (updateStats s))))"
    by (rule ref_deleteList_cascade)
  with assms(2) DeleteList c show ?thesis
    using repo_deleteList_cases[of i True now s] by auto
next
  case (CreateTask new_id now input)
  with assms(2) show ?thesis
    using repo_createTask_cases[of new_id now input s]
    by (auto intro!: ref_createTask)
next
  case (UpdateTask i now input)
  with assms(3) have ne: "uti_list_id input \<noteq> Some []" by simp
  have ok: "map_of (lists_m s) v \<noteq> None"
    if "map_of (tasks s) i = Some et"
      and "truthy (uti_list_id input) \<longrightarrow>
             uti_list_id input = Some (t_list_id et) \<or> map_of (lists_m s) (the (uti_list_id input)) \<noteq> None"
      and "uti_list_id input = Some v" for et v
  proof -
    from that(3) ne have "truthy (uti_list_id input)" by (auto simp: truthy_def)
    with that(2,3) consider "v = t_list_id et" | "map_of (lists_m s) v \<noteq> None" by auto
    then show ?thesis
    proof cases
      case 1
      from that(1) have "(i, et) \<in> set (tasks s)" by (rule map_of_SomeD)
      with assms(2) 1 show ?thesis by (auto simp: ref_ok_def)
    qed
  qed
  have upd: "ref_ok (snd (updateTask i (updateTask_data input now) now s1))"
    if "lists_m s1 = lists_m s" and "ref_ok s1"
      and "map_of (tasks s) i = Some et"
      and "truthy (uti_list_id input) \<longrightarrow>
             uti_list_id input = Some (t_list_id et) \<or> map_of (lists_m s) (the (uti_list_id input)) \<noteq> None"
    for s1 et
    using that(2)
  proof (rule ref_updateTask)
    fix v assume "pt_list_id (updateTask_data input now) = Some v"
    then have "uti_list_id input = Some v" by simp
    from ok[OF that(3,4) this] that(1) show "map_of (lists_m s1) v \<noteq> None" by simp
  qed
  from assms(2) UpdateTask show ?thesis
    using repo_updateTask_cases[of s i now input]
    by (auto intro!: upd)
next
  case (DeleteTask i now)
  with assms(2) show ?thesis
    using repo_deleteTask_cases[of i now s]
    by (auto intro!: ref_deleteTask)
next
  case (CompleteTask i now)
  with assms(2) show ?thesis
    using repo_completeTask_cases[of i now s]
    by (auto intro!: ref_updateTask)
next
  case (UncompleteTask i now)
  have upd: "ref_ok (snd (updateTask i (uncompleteTask_data et now) now (updateStats s)))"
    if "map_of (tasks s) i = Some et" for et
  proof (rule ref_updateTask)
    show "ref_ok (updateStats s)" using assms(2) by simp
  next
    fix v assume "pt_list_id (uncompleteTask_data et now) = Some v"
    then have v: "v = t_list_id et" by simp
    from that have "(i, et) \<in> set (tasks s)" by (rule map_of_SomeD)
    with assms(2) v show "map_of (lists_m (updateStats s)) v \<noteq> None"
      by (auto simp: ref_ok_def)
  qed
  from assms(2) UncompleteTask show ?thesis
    using repo_uncompleteTask_cases[of i now s]
    by (auto intro!: upd)
qed

lemma ref_repo_run:
  "repo_inv s \<Longrightarrow> ref_ok s \<Longrightarrow> repo_ops_ok s xs \<Longrightarrow> list_all cascading xs \<Longrightarrow>
   ref_ok (repo_run xs s)"
  by (induction xs arbitrary: s) (simp_all add: ref_repo_step repo_inv_step)

text \<open>
  Claim C8, as stated, fails for the deletion of a list without cascade: after creating
  a list and a task in it, \<^verbatim>\<open>deleteList(id, false)\<close> removes the list and keeps the task,
  whose \<^verbatim>\<open>list_id\<close> then refers to no list of the store.
\<close>

theorem deleteList_without_cascade_orphans_tasks:
  "map (\<lambda>(k, t). (k, t_list_id t)) (tasks (repo_run ex_orphan_ops (new_MemoryStore 10)))
     = [(''T1'', ''L1'')]
   \<and> lists_m (repo_run ex_orphan_ops (new_MemoryStore 10)) = []
   \<and> \<not> ref_ok (repo_run ex_orphan_ops (new_MemoryStore 10))"
  by code_simp

text \<open>
  Claim C8, amended. From a store that satisfies the invariant of the repositories and in
  which every task refers to a list of the store (the new store is one), after every
  sequence of repository operations in which every list deletion cascades (creating
  tasks, which fails when the list does not exist; updating tasks, which fails on a move
  to a list that does not exist; completing, uncompleting and deleting tasks; creating
  and updating lists; deleting lists with their tasks), every task in the store has a
  \<^verbatim>\<open>list_id\<close> of a list in the store. The identifiers of created records are new, and
  a \<^verbatim>\<open>list_id\<close> in a task patch is not the empty string.
\<close>

theorem tasks_refer_to_lists:
  assumes "repo_inv s" and "ref_ok s" and "repo_ops_ok s xs" and "list_all cascading xs"
  shows "ref_ok (repo_run xs s)"
  using assms by (rule ref_repo_run)

theorem tasks_refer_to_lists_witness:
  "repo_inv (new_MemoryStore 10) \<and> ref_ok (new_MemoryStore 10)
   \<and> repo_ops_ok (new_MemoryStore 10) ex_repo_ops \<and> list_all cascading ex_repo_ops
   \<and> ref_ok (repo_run ex_repo_ops (new_MemoryStore 10))
   \<and> map (\<lambda>(k, t). (k, t_list_id t)) (tasks (repo_run ex_repo_ops (new_MemoryStore 10))) = []
   \<and> map fst (lists_m (repo_run ex_repo_ops (new_MemoryStore 10))) = [''L1'']"
proof -
  have a: "ref_ok (new_MemoryStore 10)" by (simp add: ref_ok_def new_MemoryStore_def)
  have b: "repo_ops_ok (new_MemoryStore 10) ex_repo_ops" by code_simp
  have c: "list_all cascading ex_repo_ops" by code_simp
  have d: "map (\<lambda>(k, t). (k, t_list_id t)) (tasks (repo_run ex_repo_ops (new_MemoryStore 10))) = []
    \<and> map fst (lists_m (repo_run ex_repo_ops (new_MemoryStore 10))) = [''L1'']" by code_simp
  from tasks_refer_to_lists[OF repo_inv_new a b c] repo_inv_new a b c d show ?thesis by simp
qed


section \<open>The indexes follow the tasks\<close>

lemma repo_run_index_consistent:
  "repo_inv s \<Longrightarrow> repo_ops_ok s ys \<Longrightarrow> index_consistent (repo_run ys s)"
  using repo_inv_run[of s ys] by (simp add: repo_inv_def store_inv_def)

text \<open>
  Claim C2. From a store in which the indexes agree with the tasks (the new store is
  one), after every store operation of a sequence (\<^verbatim>\<open>createTask\<close> of a new id,
  \<^verbatim>\<open>updateTask\<close>, \<^verbatim>\<open>deleteTask\<close>, \<^verbatim>\<open>deleteList\<close> with or without cascade,
  \<^verbatim>\<open>createList\<close>, \<^verbatim>\<open>updateList\<close>) a task id is in the bucket of a list id, of a
  status, of a priority or of a deadline day exactly when the task exists and that is the
  current value of its field; so it is in no bucket of an earlier value, and the bucket
  of a status holds a task id if and only if the task exists with that status. The same
  holds after every sequence of operations of the repositories, which call the store.
\<close>

theorem index_buckets_match_tasks:
  "(store_inv s \<and> store_ops_ok s xs \<longrightarrow> index_consistent (store_run xs s)) \<and>
   (repo_inv s \<and> repo_ops_ok s ys \<longrightarrow> index_consistent (repo_run ys s))"
  using inv_store_run[of s xs] repo_run_index_consistent[of s ys]
  by (simp add: store_inv_def)

theorem index_buckets_match_tasks_witness:
  "store_inv (new_MemoryStore 10) \<and> store_ops_ok (new_MemoryStore 10) ex_store_ops
   \<and> index_consistent (store_run ex_store_ops (new_MemoryStore 10))
   \<and> repo_inv (new_MemoryStore 10) \<and> repo_ops_ok (new_MemoryStore 10) ex_repo_ops
   \<and> index_consistent (repo_run ex_repo_ops (new_MemoryStore 10))
   \<and> tasksByStatus (indexes (repo_run (take 7 ex_repo_ops) (new_MemoryStore 10)))
     = [(PENDING, [''T3'']), (COMPLETED, [''T1'', ''T2''])]"
proof -
  have a: "store_ops_ok (new_MemoryStore 10) ex_store_ops" by code_simp
  have b: "repo_ops_ok (new_MemoryStore 10) ex_repo_ops" by code_simp
  have c: "tasksByStatus (indexes (repo_run (take 7 ex_repo_ops) (new_MemoryStore 10)))
     = [(PENDING, [''T3'']), (COMPLETED, [''T1'', ''T2''])]" by code_simp
  from index_buckets_match_tasks[of "new_MemoryStore 10" ex_store_ops ex_repo_ops]
       inv_new[of 10] repo_inv_new[of 10] a b c
  show ?thesis by simp
qed

end
